theory Spec2Isabelle
  imports Complex_Main "HOL-Library.Option_ord" "HOL-Library.Log_Nat"
begin

section \<open>Numbers, identifiers and the record store\<close>

text \<open>
  JavaScript numbers are IEEE doubles. A finite number is the rational it denotes, and
  there are the three special values that a division or an overflow can produce. The
  goal computations of the model are written on the rationals. The percentages and the
  pagination, where a printed digit or an integer identity is at stake, go through
  \<open>round_double\<close>, the rounding of an exact result to the nearest double. The sign of
  zero is not modelled: a divisor that is zero in the modelled code is the difference of
  two equal timestamps, which is the positive zero, or a limit of 0, which the
  validators of the listings reject.
\<close>

datatype jsnum = Num rat | PInf | NInf | NaN

definition js_div :: "rat \<Rightarrow> rat \<Rightarrow> jsnum" where
  "js_div a b =
     (if b \<noteq> 0 then Num (a / b)
      else if 0 < a then PInf
      else if a < 0 then NInf
      else NaN)"

text \<open>The relational operators answer \<open>false\<close> as soon as one operand is \<open>NaN\<close>.\<close>

fun js_ge :: "jsnum \<Rightarrow> jsnum \<Rightarrow> bool" where
  "js_ge NaN y = False"
| "js_ge x NaN = False"
| "js_ge PInf y = True"
| "js_ge x NInf = True"
| "js_ge NInf y = False"
| "js_ge (Num a) PInf = False"
| "js_ge (Num a) (Num b) = (b \<le> a)"

fun js_lt :: "jsnum \<Rightarrow> jsnum \<Rightarrow> bool" where
  "js_lt NaN y = False"
| "js_lt x NaN = False"
| "js_lt x NInf = False"
| "js_lt PInf y = False"
| "js_lt x PInf = True"
| "js_lt NInf y = True"
| "js_lt (Num a) (Num b) = (a < b)"

fun js_ceil :: "jsnum \<Rightarrow> jsnum" where
  "js_ceil (Num a) = Num (of_int \<lceil>a\<rceil>)"
| "js_ceil x = x"

text \<open>
  Rounding to the nearest double, ties to the even significand. A double has 53
  significant bits: for a magnitude in the binade from \<open>2^e\<close> to \<open>2^(e+1)\<close> the doubles
  are the multiples of \<open>2^(e-52)\<close>, and below \<open>2^(-1022)\<close> the multiples of
  \<open>2^(-1074)\<close>. A result that rounds to \<open>2^1024\<close> or more is an infinity.
\<close>

definition round_half_even :: "rat \<Rightarrow> int" where
  "round_half_even y =
     (let f = \<lfloor>y\<rfloor>; r = y - of_int f
      in if r < 1 / 2 then f else if 1 / 2 < r then f + 1 else if even f then f else f + 1)"

text \<open>The binade of a positive number: the \<open>e\<close> with \<open>2^e \<le> x < 2^(e+1)\<close>.\<close>

definition exponent :: "rat \<Rightarrow> int" where
  "exponent x = (if 1 \<le> x then bitlen \<lfloor>x\<rfloor> - 1 else - bitlen (\<lceil>1 / x\<rceil> - 1))"

definition ulp :: "rat \<Rightarrow> rat" where
  "ulp x = 2 powi (max (exponent \<bar>x\<bar>) (- 1022) - 52)"

definition overflow_threshold :: rat where
  "overflow_threshold = 2 ^ 1024"

definition round_double :: "rat \<Rightarrow> jsnum" where
  "round_double x =
     (if x = 0 then Num 0
      else
        (let y = of_int (round_half_even (\<bar>x\<bar> / ulp x)) * ulp x
         in if overflow_threshold \<le> y then (if 0 < x then PInf else NInf)
            else Num (if 0 < x then y else - y)))"

text \<open>
  The arithmetic operators on doubles: the exact result, rounded; the special values
  follow IEEE 754.
\<close>

definition fl_sub :: "jsnum \<Rightarrow> jsnum \<Rightarrow> jsnum" where
  "fl_sub x y =
     (case (x, y) of
        (NaN, _) \<Rightarrow> NaN
      | (_, NaN) \<Rightarrow> NaN
      | (Num a, Num b) \<Rightarrow> round_double (a - b)
      | (Num a, PInf) \<Rightarrow> NInf
      | (Num a, NInf) \<Rightarrow> PInf
      | (PInf, PInf) \<Rightarrow> NaN
      | (PInf, _) \<Rightarrow> PInf
      | (NInf, NInf) \<Rightarrow> NaN
      | (NInf, _) \<Rightarrow> NInf)"

definition fl_mul :: "jsnum \<Rightarrow> jsnum \<Rightarrow> jsnum" where
  "fl_mul x y =
     (case (x, y) of
        (NaN, _) \<Rightarrow> NaN
      | (_, NaN) \<Rightarrow> NaN
      | (Num a, Num b) \<Rightarrow> round_double (a * b)
      | (Num a, PInf) \<Rightarrow> (if a = 0 then NaN else if 0 < a then PInf else NInf)
      | (Num a, NInf) \<Rightarrow> (if a = 0 then NaN else if 0 < a then NInf else PInf)
      | (PInf, Num b) \<Rightarrow> (if b = 0 then NaN else if 0 < b then PInf else NInf)
      | (NInf, Num b) \<Rightarrow> (if b = 0 then NaN else if 0 < b then NInf else PInf)
      | (PInf, PInf) \<Rightarrow> PInf
      | (PInf, NInf) \<Rightarrow> NInf
      | (NInf, PInf) \<Rightarrow> NInf
      | (NInf, NInf) \<Rightarrow> PInf)"

definition fl_div :: "jsnum \<Rightarrow> jsnum \<Rightarrow> jsnum" where
  "fl_div x y =
     (case (x, y) of
        (NaN, _) \<Rightarrow> NaN
      | (_, NaN) \<Rightarrow> NaN
      | (Num a, Num b) \<Rightarrow>
          (if b \<noteq> 0 then round_double (a / b)
           else if 0 < a then PInf
           else if a < 0 then NInf
           else NaN)
      | (Num a, _) \<Rightarrow> Num 0
      | (PInf, Num b) \<Rightarrow> (if b < 0 then NInf else PInf)
      | (NInf, Num b) \<Rightarrow> (if b < 0 then PInf else NInf)
      | (_, _) \<Rightarrow> NaN)"

text \<open>
  \<open>parseInt\<close> on the decimal digits of an integer, which is the form that the
  validator \<open>isInt\<close> lets through: the double nearest to the integer.
\<close>

definition parseInt :: "int \<Rightarrow> jsnum" where
  "parseInt n = round_double (of_int n)"

type_synonym oid = nat
type_synonym timestamp = int

section \<open>The Savings model (models/Savings.js)\<close>

text \<open>
  The \<open>goal\<close> path of the schema is a nested object, so it is present on every
  document; \<open>targetAmount\<close> and \<open>targetDate\<close> have no default and may be
  undefined. Dates are milliseconds since the epoch. The record keeps the fields that
  the modelled routes and hooks read.
\<close>

record goal =
  targetAmount :: "rat option"
  targetDate :: "timestamp option"
  isCompleted :: bool
  progress :: rat

record savings_doc =
  doc_id :: oid
  user :: oid
  amount :: rat
  period_startDate :: timestamp
  goal :: goal

text \<open>
  The virtual \<open>goalProgressPercentage\<close>:
  \<^verbatim>\<open>if (!this.goal.targetAmount || this.goal.targetAmount === 0) return 0;\<close>
  \<^verbatim>\<open>return Math.min((this.amount / this.goal.targetAmount) * 100, 100);\<close>
  An undefined target and a target of 0 are both falsy; past the guard the divisor is
  not zero.
\<close>

definition goalProgressPercentage :: "savings_doc \<Rightarrow> rat" where
  "goalProgressPercentage s =
     (case targetAmount (goal s) of
        None \<Rightarrow> 0
      | Some t \<Rightarrow> if t = 0 then 0 else min (amount s / t * 100) 100)"

text \<open>
  The method \<open>updateGoalProgress\<close>:
  \<^verbatim>\<open>if (this.goal.targetAmount && this.goal.targetAmount > 0) {\<close>
  \<^verbatim>\<open>  this.goal.progress = Math.min((this.amount / this.goal.targetAmount) * 100, 100);\<close>
  \<^verbatim>\<open>  this.goal.isCompleted = this.goal.progress >= 100; }\<close>
  The second assignment reads the progress written by the first.
\<close>

definition updateGoalProgress :: "savings_doc \<Rightarrow> savings_doc" where
  "updateGoalProgress s =
     (case targetAmount (goal s) of
        None \<Rightarrow> s
      | Some t \<Rightarrow>
          if t \<noteq> 0 \<and> 0 < t then
            (let g1 = (goal s)\<lparr>progress := min (amount s / t * 100) 100\<rparr>;
                 g2 = g1\<lparr>isCompleted := (100 \<le> progress g1)\<rparr>
             in s\<lparr>goal := g2\<rparr>)
          else s)"

text \<open>The \<open>pre('save')\<close> middleware calls the method and continues.\<close>

definition pre_save :: "savings_doc \<Rightarrow> savings_doc" where
  "pre_save s = updateGoalProgress s"

text \<open>
  The record store. A query either fails as a whole (the \<open>catch\<close> branch of every
  route) or answers from the stored documents. \<open>save\<close> runs the validators that the
  schema puts on the modelled fields (the minimum of the amount and of the target, the
  range of the progress) on the document as it was handed in, then the \<open>pre('save')\<close>
  hook, then writes the result: it replaces the stored document of the same identifier,
  or appends.
\<close>

datatype store_error = StoreError | ValidationError

record db =
  connected :: bool
  docs :: "savings_doc list"

definition schema_valid :: "savings_doc \<Rightarrow> bool" where
  "schema_valid s \<longleftrightarrow>
     0 \<le> amount s \<and>
     (case targetAmount (goal s) of None \<Rightarrow> True | Some t \<Rightarrow> 0 \<le> t) \<and>
     0 \<le> progress (goal s) \<and> progress (goal s) \<le> 100"

definition write_doc :: "savings_doc list \<Rightarrow> savings_doc \<Rightarrow> savings_doc list" where
  "write_doc ds s =
     (if list_ex (\<lambda>d. doc_id d = doc_id s) ds
      then map (\<lambda>d. if doc_id d = doc_id s then s else d) ds
      else ds @ [s])"

definition save :: "db \<Rightarrow> savings_doc \<Rightarrow> store_error + (db \<times> savings_doc)" where
  "save d s =
     (if \<not> schema_valid s then Inl ValidationError
      else
        (let s' = pre_save s
         in if \<not> connected d then Inl StoreError
            else Inr (d\<lparr>docs := write_doc (docs d) s'\<rparr>, s')))"

section \<open>Rendering numbers\<close>

text \<open>
  Template literals and \<open>toFixed\<close> print numbers in decimal. \<open>digits\<close> is the string of
  a natural number without leading zeros.
\<close>

definition digit_char :: "nat \<Rightarrow> char" where
  "digit_char n = ''0123456789'' ! (n mod 10)"

fun digits :: "nat \<Rightarrow> string" where
  "digits n = (if n < 10 then [digit_char n] else digits (n div 10) @ [digit_char n])"

declare digits.simps [simp del]

text \<open>
  A JSON value of the analytics responses: a number or a string. The exponent notation
  that \<open>toFixed\<close> returns for a magnitude of at least \<open>10^21\<close> is not spelled out.
\<close>

datatype jsval = JNum rat | JStr string | JExponent rat

text \<open>
  \<open>Number.prototype.toFixed(2)\<close> on a double. A negative number is printed as \<open>-\<close>
  followed by its magnitude; \<open>n\<close> is the integer with \<open>n / 100\<close> nearest to the
  magnitude, the larger one of two; its digits are padded with zeros to three places and
  the point goes before the last two. The special values print their names.
\<close>

definition toFixed2 :: "jsnum \<Rightarrow> jsval" where
  "toFixed2 v =
     (case v of
        NaN \<Rightarrow> JStr ''NaN''
      | PInf \<Rightarrow> JStr ''Infinity''
      | NInf \<Rightarrow> JStr ''-Infinity''
      | Num x \<Rightarrow>
          if 10 ^ 21 \<le> \<bar>x\<bar> then JExponent x
          else
            (let n = nat \<lfloor>\<bar>x\<bar> * 100 + 1 / 2\<rfloor>;
                 m = digits n;
                 m = (if length m \<le> 2 then replicate (3 - length m) CHR ''0'' @ m else m);
                 k = length m
             in JStr ((if x < 0 then ''-'' else []) @ take (k - 2) m @ ''.'' @ drop (k - 2) m)))"

section \<open>The savings routes (routes/savings.js)\<close>

text \<open>
  A response is a status code and a JSON body. \<open>res.json\<close> without \<open>res.status\<close>
  answers 200. The bodies are \<open>{message}\<close>, \<open>{message, errors}\<close>,
  \<open>{success, data}\<close> with a document, \<open>{success, message}\<close>,
  \<open>{success, message, data: {deletedCount}}\<close> and \<open>{success, data}\<close> with the
  goals, whose entries are the document with \<open>progressPercentage\<close>,
  \<open>remainingAmount\<close> and \<open>isOnTrack\<close>.
\<close>

record goal_progress =
  goal_doc :: savings_doc
  progressPercentage :: rat
  gp_remainingAmount :: jsnum
  gp_isOnTrack :: bool

datatype payload =
    Msg string
  | Failed "string list"
  | Data savings_doc
  | Done string
  | Deleted string nat
  | GoalsData "goal_progress list"

type_synonym response = "nat \<times> payload"

subsection \<open>GET /api/savings: the filter and the pagination\<close>

text \<open>
  The values of \<open>req.query\<close> are the strings of the query string, or undefined: the
  route applies validators and no sanitizer, and the handler itself calls
  \<open>parseFloat\<close> and \<open>new Date\<close> on them. A string is truthy unless it is empty, so
  the string \<open>0\<close> is truthy (the number 0, which the query string never yields, would
  not be). The validators of the route are \<open>isISO8601\<close> for the dates and
  \<open>isFloat\<close> for the amounts behind \<open>optional()\<close>, which lets only undefined
  through: a bound that reaches the handler is not the empty string.
\<close>

record req_query =
  startDate :: "string option"
  endDate :: "string option"
  type :: "string option"
  category :: "string option"
  minAmount :: "string option"
  maxAmount :: "string option"
  paymentMethod :: "string option"
  currency :: "string option"

definition truthy :: "string option \<Rightarrow> bool" where
  "truthy v = (case v of None \<Rightarrow> False | Some s \<Rightarrow> s \<noteq> [])"

definition bounds_validated :: "req_query \<Rightarrow> bool" where
  "bounds_validated rq \<longleftrightarrow>
     startDate rq \<noteq> Some [] \<and> endDate rq \<noteq> Some [] \<and>
     minAmount rq \<noteq> Some [] \<and> maxAmount rq \<noteq> Some []"

text \<open>
  The bounds of a clause are the values \<open>new Date(s)\<close> and \<open>parseFloat(s)\<close>, kept
  as the call on the string. A query object has the key \<open>user\<close> and may have the
  other keys; a range object may have \<open>$gte\<close> and \<open>$lte\<close>.
\<close>

datatype date_val = NewDate string
datatype num_val = ParseFloat string

record 'a range =
  gte :: "'a option"
  lte :: "'a option"

record mongo_query =
  q_user :: oid
  q_date :: "date_val range option"
  q_type :: "string option"
  q_category :: "string option"
  q_amount :: "num_val range option"
  q_paymentMethod :: "string option"
  q_currency :: "string option"

definition if_truthy :: "string option \<Rightarrow> (string \<Rightarrow> 'a) \<Rightarrow> 'a option" where
  "if_truthy v f = (case v of None \<Rightarrow> None | Some s \<Rightarrow> if s = [] then None else Some (f s))"

definition owner_query :: "oid \<Rightarrow> mongo_query" where
  "owner_query uid =
     \<lparr>q_user = uid, q_date = None, q_type = None, q_category = None, q_amount = None,
      q_paymentMethod = None, q_currency = None\<rparr>"

definition date_filter :: "req_query \<Rightarrow> mongo_query \<Rightarrow> mongo_query" where
  "date_filter rq query =
     (if truthy (startDate rq) \<or> truthy (endDate rq)
      then query\<lparr>q_date := Some \<lparr>gte = if_truthy (startDate rq) NewDate,
                                  lte = if_truthy (endDate rq) NewDate\<rparr>\<rparr>
      else query)"

definition amount_filter :: "req_query \<Rightarrow> mongo_query \<Rightarrow> mongo_query" where
  "amount_filter rq query =
     (if truthy (minAmount rq) \<or> truthy (maxAmount rq)
      then query\<lparr>q_amount := Some \<lparr>gte = if_truthy (minAmount rq) ParseFloat,
                                    lte = if_truthy (maxAmount rq) ParseFloat\<rparr>\<rparr>
      else query)"

text \<open>The filter of GET /api/savings, statement by statement.\<close>

definition savings_list_query :: "oid \<Rightarrow> req_query \<Rightarrow> mongo_query" where
  "savings_list_query uid rq =
     (let query = owner_query uid;
          query = date_filter rq query;
          query = (if truthy (type rq) then query\<lparr>q_type := type rq\<rparr> else query);
          query = (if truthy (category rq) then query\<lparr>q_category := category rq\<rparr> else query);
          query = amount_filter rq query
      in query)"

text \<open>The filter of GET /api/expenses has the payment method after the amount.\<close>

definition expense_list_query :: "oid \<Rightarrow> req_query \<Rightarrow> mongo_query" where
  "expense_list_query uid rq =
     (let query = owner_query uid;
          query = date_filter rq query;
          query = (if truthy (category rq) then query\<lparr>q_category := category rq\<rparr> else query);
          query = amount_filter rq query;
          query = (if truthy (paymentMethod rq)
                   then query\<lparr>q_paymentMethod := paymentMethod rq\<rparr> else query)
      in query)"

text \<open>
  The pagination of both listings. \<open>page\<close> and \<open>limit\<close> are the integers that the
  validated parameters write (or the defaults 1 and 20), \<open>total\<close> is the count of
  matching documents as the number the store answers:
  \<^verbatim>\<open>const skip = (parseInt(page) - 1) * parseInt(limit);\<close>
  \<^verbatim>\<open>const totalPages = Math.ceil(total / parseInt(limit));\<close>
  \<^verbatim>\<open>currentPage: parseInt(page), totalPages, totalItems: total,\<close>
  \<^verbatim>\<open>itemsPerPage: parseInt(limit), hasNextPage: parseInt(page) < totalPages,\<close>
  \<^verbatim>\<open>hasPrevPage: parseInt(page) > 1\<close>
\<close>

record pagination =
  currentPage :: jsnum
  totalPages :: jsnum
  totalItems :: jsnum
  itemsPerPage :: jsnum
  hasNextPage :: bool
  hasPrevPage :: bool

definition skip_of :: "int \<Rightarrow> int \<Rightarrow> jsnum" where
  "skip_of page limit = fl_mul (fl_sub (parseInt page) (Num 1)) (parseInt limit)"

definition pagination_of :: "int \<Rightarrow> int \<Rightarrow> nat \<Rightarrow> pagination" where
  "pagination_of page limit total_count =
     (let total_items = round_double (of_nat total_count);
          tp = js_ceil (fl_div total_items (parseInt limit))
      in \<lparr>currentPage = parseInt page, totalPages = tp, totalItems = total_items,
          itemsPerPage = parseInt limit,
          hasNextPage = js_lt (parseInt page) tp, hasPrevPage = js_lt (Num 1) (parseInt page)\<rparr>)"

subsection \<open>GET /api/savings/:id\<close>

text \<open>
  \<open>findOne\<close> answers the first stored document that matches, or null. The route asks
  for the identifier and the owner together. The path parameter is taken here as the
  identifier it casts to; the router below passes the parameter as the string it is.
\<close>

definition findOne :: "db \<Rightarrow> (savings_doc \<Rightarrow> bool) \<Rightarrow> store_error + savings_doc option" where
  "findOne d f = (if connected d then Inr (find f (docs d)) else Inl StoreError)"

definition get_savings_by_id :: "db \<Rightarrow> oid \<Rightarrow> oid \<Rightarrow> response" where
  "get_savings_by_id d uid i =
     (case findOne d (\<lambda>s. doc_id s = i \<and> user s = uid) of
        Inl e \<Rightarrow> (500, Msg ''Server error while fetching savings entry'')
      | Inr None \<Rightarrow> (404, Msg ''Savings entry not found'')
      | Inr (Some s) \<Rightarrow> (200, Data s))"

subsection \<open>DELETE /api/savings/bulk\<close>

text \<open>
  \<open>deleteMany\<close> removes every stored document that matches and reports how many it
  removed. The handler answers 400 when the validators left errors (\<open>errors\<close> is their
  result), and otherwise deletes the documents whose identifier is in the list and whose
  owner is the caller.
\<close>

definition deleteMany :: "db \<Rightarrow> (savings_doc \<Rightarrow> bool) \<Rightarrow> store_error + (db \<times> nat)" where
  "deleteMany d f =
     (if connected d
      then Inr (d\<lparr>docs := filter (\<lambda>s. \<not> f s) (docs d)\<rparr>, length (filter f (docs d)))
      else Inl StoreError)"

definition bulk_delete :: "string list \<Rightarrow> db \<Rightarrow> oid \<Rightarrow> oid list \<Rightarrow> db \<times> response" where
  "bulk_delete errors d uid savingsIds =
     (if errors \<noteq> [] then (d, (400, Failed errors))
      else
        (case deleteMany d (\<lambda>s. doc_id s \<in> set savingsIds \<and> user s = uid) of
           Inl e \<Rightarrow> (d, (500, Msg ''Server error while bulk deleting savings entries''))
         | Inr (d', n) \<Rightarrow>
             (d', (200, Deleted (''Successfully deleted '' @ digits n @ '' savings entries'') n))))"

subsection \<open>DELETE /api/savings/:id\<close>

text \<open>
  \<open>findOneAndDelete\<close> removes the first stored document that matches and answers it,
  or answers null. The filter has the path parameter as \<open>_id\<close>: the driver casts it to
  an identifier when the query runs, and a string that is no identifier makes the query
  throw, which the handler catches. \<open>cast\<close> is that conversion.
\<close>

definition findOneAndDelete ::
  "db \<Rightarrow> (savings_doc \<Rightarrow> bool) \<Rightarrow> store_error + (db \<times> savings_doc option)" where
  "findOneAndDelete d f =
     (if connected d
      then (case find f (docs d) of
              None \<Rightarrow> Inr (d, None)
            | Some s \<Rightarrow> Inr (d\<lparr>docs := remove1 s (docs d)\<rparr>, Some s))
      else Inl StoreError)"

definition delete_savings_by_id ::
  "(string \<Rightarrow> oid option) \<Rightarrow> db \<Rightarrow> oid \<Rightarrow> string \<Rightarrow> db \<times> response" where
  "delete_savings_by_id cast d uid param =
     (case cast param of
        None \<Rightarrow> (d, (500, Msg ''Server error while deleting savings entry''))
      | Some i \<Rightarrow>
          (case findOneAndDelete d (\<lambda>s. doc_id s = i \<and> user s = uid) of
             Inl e \<Rightarrow> (d, (500, Msg ''Server error while deleting savings entry''))
           | Inr (d', None) \<Rightarrow> (d', (404, Msg ''Savings entry not found''))
           | Inr (d', Some s) \<Rightarrow> (d', (200, Done ''Savings entry deleted successfully''))))"

text \<open>The handler of GET /api/savings/:id on the path parameter as it arrives.\<close>

definition get_savings_by_param ::
  "(string \<Rightarrow> oid option) \<Rightarrow> db \<Rightarrow> oid \<Rightarrow> string \<Rightarrow> response" where
  "get_savings_by_param cast d uid param =
     (case cast param of
        None \<Rightarrow> (500, Msg ''Server error while fetching savings entry'')
      | Some i \<Rightarrow> get_savings_by_id d uid i)"

text \<open>
  An identifier is written as 24 hexadecimal digits, and \<open>hex_object_id\<close> is the
  conversion of such strings. Versions of the driver differ on strings of 12 characters
  and agree in refusing every other string; the statements about the router take the
  conversion as a parameter and ask of it only that it refuses the segment at hand.
\<close>

definition hex_value :: "char \<Rightarrow> nat option" where
  "hex_value c =
     map_of (zip ''0123456789abcdef'' [0 ..< 16] @ zip ''ABCDEF'' [10 ..< 16]) c"

fun nat_of_hex :: "nat \<Rightarrow> string \<Rightarrow> nat option" where
  "nat_of_hex acc [] = Some acc"
| "nat_of_hex acc (c # cs) =
     (case hex_value c of None \<Rightarrow> None | Some v \<Rightarrow> nat_of_hex (16 * acc + v) cs)"

definition hex_object_id :: "string \<Rightarrow> oid option" where
  "hex_object_id s = (if length s = 24 then nat_of_hex 0 s else None)"

subsection \<open>GET /api/savings/goals\<close>

text \<open>
  The on-track flag of one goal, at the time \<open>now\<close> of \<open>Date.now()\<close>:
  \<^verbatim>\<open>goal.goal.targetDate ? (goal.amount / goal.goal.targetAmount) >=\<close>
  \<^verbatim>\<open>  (Date.now() - start) / (target - start) : true\<close>
  A date object is truthy. Dividing by an undefined target gives \<open>NaN\<close>, and the
  comparison is then false.
\<close>

definition isOnTrack :: "timestamp \<Rightarrow> savings_doc \<Rightarrow> bool" where
  "isOnTrack now g =
     (case targetDate (goal g) of
        None \<Rightarrow> True
      | Some td \<Rightarrow>
          (case targetAmount (goal g) of
             None \<Rightarrow> False
           | Some t \<Rightarrow>
               js_ge (js_div (amount g) t)
                     (js_div (of_int (now - period_startDate g))
                             (of_int (td - period_startDate g)))))"

definition remainingAmount :: "savings_doc \<Rightarrow> jsnum" where
  "remainingAmount g =
     (case targetAmount (goal g) of None \<Rightarrow> NaN | Some t \<Rightarrow> Num (t - amount g))"

definition goal_with_progress :: "timestamp \<Rightarrow> savings_doc \<Rightarrow> goal_progress" where
  "goal_with_progress now g =
     \<lparr>goal_doc = g, progressPercentage = goalProgressPercentage g,
      gp_remainingAmount = remainingAmount g, gp_isOnTrack = isOnTrack now g\<rparr>"

text \<open>
  The route reads the caller's documents with a target above 0, sorted by target date
  (ascending, documents without one first), and maps them.
\<close>

definition has_goal :: "oid \<Rightarrow> savings_doc \<Rightarrow> bool" where
  "has_goal uid s \<longleftrightarrow>
     user s = uid \<and> (case targetAmount (goal s) of None \<Rightarrow> False | Some t \<Rightarrow> 0 < t)"

definition get_goals :: "timestamp \<Rightarrow> db \<Rightarrow> oid \<Rightarrow> store_error + goal_progress list" where
  "get_goals now d uid =
     (if connected d
      then Inr (map (goal_with_progress now)
                  (sort_key (\<lambda>s. targetDate (goal s)) (filter (has_goal uid) (docs d))))
      else Inl StoreError)"

definition goals_response :: "timestamp \<Rightarrow> db \<Rightarrow> oid \<Rightarrow> response" where
  "goals_response now d uid =
     (case get_goals now d uid of
        Inl e \<Rightarrow> (500, Msg ''Server error while fetching goals'')
      | Inr gs \<Rightarrow> (200, GoalsData gs))"

subsection \<open>The router\<close>

text \<open>
  The router is mounted at \<open>/api/savings\<close> behind the middleware that authenticates the
  caller, and a request path is the list of the segments after the mount point. Express
  tries the routes in the order of their registration and runs the first one whose
  method and pattern match; no handler of this router hands the request on. A segment of
  a pattern is a literal, compared without regard to case, or a parameter, which matches
  any one segment. These are the routes of the file, in its order:
  \<^verbatim>\<open>router.post('/', ...)              router.get('/', ...)\<close>
  \<^verbatim>\<open>router.get('/:id', ...)            router.put('/:id', ...)\<close>
  \<^verbatim>\<open>router.delete('/:id', ...)         router.get('/summary/period', ...)\<close>
  \<^verbatim>\<open>router.get('/goals', ...)          router.get('/type/:type', ...)\<close>
  \<^verbatim>\<open>router.delete('/bulk', ...)        router.get('/categories', ...)\<close>
\<close>

datatype http_method = GET | POST | PUT | DELETE

datatype segment = Lit string | Param

datatype handler =
    CreateSavings | ListSavings | SavingsById | UpdateSavings | DeleteSavings
  | PeriodSummary | Goals | SavingsByType | BulkDelete | Categories

definition savings_routes :: "(http_method \<times> segment list \<times> handler) list" where
  "savings_routes =
     [(POST, [], CreateSavings),
      (GET, [], ListSavings),
      (GET, [Param], SavingsById),
      (PUT, [Param], UpdateSavings),
      (DELETE, [Param], DeleteSavings),
      (GET, [Lit ''summary'', Lit ''period''], PeriodSummary),
      (GET, [Lit ''goals''], Goals),
      (GET, [Lit ''type'', Param], SavingsByType),
      (DELETE, [Lit ''bulk''], BulkDelete),
      (GET, [Lit ''categories''], Categories)]"

definition lower_char :: "char \<Rightarrow> char" where
  "lower_char c =
     (let n = of_char c :: nat in if 65 \<le> n \<and> n \<le> 90 then char_of (n + 32) else c)"

text \<open>The values of the parameters of a pattern on a path, if the pattern matches it.\<close>

fun match_path :: "segment list \<Rightarrow> string list \<Rightarrow> string list option" where
  "match_path [] [] = Some []"
| "match_path (Lit l # pat) (s # path) =
     (if map lower_char s = map lower_char l then match_path pat path else None)"
| "match_path (Param # pat) (s # path) =
     (if s = [] then None else map_option ((#) s) (match_path pat path))"
| "match_path _ _ = None"

fun first_match ::
  "(http_method \<times> segment list \<times> handler) list \<Rightarrow> http_method \<Rightarrow> string list \<Rightarrow>
   (handler \<times> string list) option" where
  "first_match [] m path = None"
| "first_match ((m', pat, h) # routes) m path =
     (if m' = m
      then (case match_path pat path of
              Some params \<Rightarrow> Some (h, params)
            | None \<Rightarrow> first_match routes m path)
      else first_match routes m path)"

definition dispatch :: "http_method \<Rightarrow> string list \<Rightarrow> (handler \<times> string list) option" where
  "dispatch m path = first_match savings_routes m path"

text \<open>
  What the server does with a request of the caller \<open>uid\<close>: the store after it and the
  response. \<open>errors\<close> and \<open>savingsIds\<close> are what the validators and the body give the
  bulk handler. A request that no route takes reaches the last handler of the server,
  which answers 404. The handlers that are not embedded here are named.
\<close>

datatype outcome = Answered db response | Runs handler

definition savings_router ::
  "(string \<Rightarrow> oid option) \<Rightarrow> timestamp \<Rightarrow> db \<Rightarrow> oid \<Rightarrow> http_method \<Rightarrow> string list \<Rightarrow>
   string list \<Rightarrow> oid list \<Rightarrow> outcome" where
  "savings_router cast now d uid m path errors savingsIds =
     (case dispatch m path of
        None \<Rightarrow> Answered d (404, Msg ''Route not found'')
      | Some (h, params) \<Rightarrow>
          (case h of
             SavingsById \<Rightarrow> Answered d (get_savings_by_param cast d uid (hd params))
           | DeleteSavings \<Rightarrow>
               (case delete_savings_by_id cast d uid (hd params) of
                  (d', r) \<Rightarrow> Answered d' r)
           | Goals \<Rightarrow> Answered d (goals_response now d uid)
           | BulkDelete \<Rightarrow>
               (case bulk_delete errors d uid savingsIds of (d', r) \<Rightarrow> Answered d' r)
           | _ \<Rightarrow> Runs h))"

section \<open>The analytics routes (routes/analytics.js)\<close>

subsection \<open>Pie charts\<close>

text \<open>
  The percentage of one row of a grouped aggregation, as both pie charts compute it from
  the sum of the row and the sum of all rows, two doubles:
  \<^verbatim>\<open>totalExpenses > 0 ? ((item.total / totalExpenses) * 100).toFixed(2) : 0\<close>
  The division runs only behind the guard, with a positive divisor. The quotient is
  rounded to a double, and so is its product with 100, before \<open>toFixed\<close> prints it.
\<close>

definition percentage_of_total :: "rat \<Rightarrow> rat \<Rightarrow> jsval" where
  "percentage_of_total item_total grandTotal =
     (if 0 < grandTotal
      then toFixed2 (fl_mul (fl_div (Num item_total) (Num grandTotal)) (Num 100))
      else JNum 0)"

text \<open>
  What the specification calls \<open>round2\<close>: the nearest multiple of one hundredth, a tie
  going up. The value of a printed decimal is read back by \<open>decimal_value\<close>: the digits
  before and after the point, over the power of ten of the places after it.
\<close>

definition round2 :: "rat \<Rightarrow> rat" where
  "round2 x = of_int \<lfloor>x * 100 + 1 / 2\<rfloor> / 100"

definition digit_value :: "char \<Rightarrow> nat option" where
  "digit_value c = map_of (zip ''0123456789'' [0 ..< 10]) c"

fun nat_of_digits :: "nat \<Rightarrow> string \<Rightarrow> nat option" where
  "nat_of_digits acc [] = Some acc"
| "nat_of_digits acc (c # cs) =
     (case digit_value c of None \<Rightarrow> None | Some v \<Rightarrow> nat_of_digits (10 * acc + v) cs)"

definition decimal_value :: "string \<Rightarrow> rat option" where
  "decimal_value s =
     (let a = takeWhile (\<lambda>c. c \<noteq> CHR ''.'') s;
          b = drop 1 (dropWhile (\<lambda>c. c \<noteq> CHR ''.'') s)
      in if a = [] \<or> b = [] then None
         else (case nat_of_digits 0 (a @ b) of
                 None \<Rightarrow> None
               | Some n \<Rightarrow> Some (of_nat n / 10 ^ length b)))"

subsection \<open>Monthly trends\<close>

text \<open>
  The two aggregations group by the month of the date and answer one row for each month
  that has documents. The route then builds the data of the year:
  \<^verbatim>\<open>for (let month = 1; month <= 12; month++) {\<close>
  \<^verbatim>\<open>  const expenseData = monthlyExpenses.find(item => item._id.month === month);\<close>
  \<^verbatim>\<open>  const savingsData = monthlySavings.find(item => item._id.month === month);\<close>
  \<^verbatim>\<open>  monthlyData.push({ month, monthName, expenses, savings, netWorth }); }\<close>
  The name is the long English name that \<open>new Date(year, month - 1)\<close> prints, for a year
  that the validator admits.
\<close>

record month_row =
  row_month :: int
  month_total :: rat
  month_count :: nat

record month_entry =
  month :: int
  monthName :: string
  expenses :: rat
  savings :: rat
  netWorth :: rat

definition month_name :: "int \<Rightarrow> string" where
  "month_name m =
     [''January'', ''February'', ''March'', ''April'', ''May'', ''June'', ''July'',
      ''August'', ''September'', ''October'', ''November'', ''December'']
       ! nat ((m - 1) mod 12)"

definition month_entry_of :: "month_row list \<Rightarrow> month_row list \<Rightarrow> int \<Rightarrow> month_entry" where
  "month_entry_of monthlyExpenses monthlySavings m =
     (let expenseData = find (\<lambda>item. row_month item = m) monthlyExpenses;
          savingsData = find (\<lambda>item. row_month item = m) monthlySavings;
          e = (case expenseData of Some r \<Rightarrow> month_total r | None \<Rightarrow> 0);
          s = (case savingsData of Some r \<Rightarrow> month_total r | None \<Rightarrow> 0)
      in \<lparr>month = m, monthName = month_name m, expenses = e, savings = s, netWorth = s - e\<rparr>)"

function monthly_loop ::
  "month_row list \<Rightarrow> month_row list \<Rightarrow> int \<Rightarrow> month_entry list \<Rightarrow> month_entry list" where
  "monthly_loop monthlyExpenses monthlySavings m monthlyData =
     (if m \<le> 12
      then monthly_loop monthlyExpenses monthlySavings (m + 1)
             (monthlyData @ [month_entry_of monthlyExpenses monthlySavings m])
      else monthlyData)"
  by pat_completeness auto
termination
  by (relation "measure (\<lambda>(me, ms, m, acc). nat (13 - m))") auto

declare monthly_loop.simps [simp del]

record monthly_trends =
  year :: int
  monthlyData :: "month_entry list"
  totalExpenses :: rat
  totalSavings :: rat
  averageMonthlyExpenses :: rat
  averageMonthlySavings :: rat

definition monthly_trends_of :: "int \<Rightarrow> month_row list \<Rightarrow> month_row list \<Rightarrow> monthly_trends" where
  "monthly_trends_of y monthlyExpenses monthlySavings =
     (let md = monthly_loop monthlyExpenses monthlySavings 1 [];
          te = foldl (\<lambda>sum mo. sum + expenses mo) 0 md;
          ts = foldl (\<lambda>sum mo. sum + savings mo) 0 md
      in \<lparr>year = y, monthlyData = md, totalExpenses = te, totalSavings = ts,
          averageMonthlyExpenses = te / 12, averageMonthlySavings = ts / 12\<rparr>)"

section \<open>Goal progress\<close>


lemma updateGoalProgress_no_target:
  assumes "targetAmount (goal s) = None \<or> targetAmount (goal s) = Some 0"
  shows "updateGoalProgress s = s"
  using assms by (auto simp: updateGoalProgress_def)

lemma write_doc_member: "s \<in> set (write_doc ds s)"
  by (induction ds) (auto simp: write_doc_def list_ex_iff)



lemma save_InrD:
  "save d s = Inr (d', s') \<Longrightarrow>
   s' = pre_save s \<and> docs d' = write_doc (docs d) s' \<and> connected d \<and> schema_valid s"
  by (auto simp: save_def Let_def split: if_splits)





text \<open>
  Claim C10. When the target of a document is absent or 0, the pre-save hook leaves
  its progress and its completion flag as they were, and so does the document that a
  successful save stores.
\<close>

theorem pre_save_frame_without_target:
  "(targetAmount (goal s) = None \<or> targetAmount (goal s) = Some 0 \<longrightarrow>
      progress (goal (pre_save s)) = progress (goal s)
      \<and> isCompleted (goal (pre_save s)) = isCompleted (goal s))
   \<and> ((targetAmount (goal s) = None \<or> targetAmount (goal s) = Some 0)
        \<and> save d s = Inr (d', s') \<longrightarrow>
      s' \<in> set (docs d')
      \<and> progress (goal s') = progress (goal s)
      \<and> isCompleted (goal s') = isCompleted (goal s))"
  using updateGoalProgress_no_target[of s] save_InrD[of d s d' s'] write_doc_member[of s' "docs d"]
  by (auto simp: pre_save_def)

theorem pre_save_frame_without_target_witness:
  "progress (goal (pre_save
     \<lparr>doc_id = 1, user = 7, amount = 50, period_startDate = 0,
      goal = \<lparr>targetAmount = Some 0, targetDate = None, isCompleted = True, progress = 100\<rparr>\<rparr>))
   = 100
   \<and> isCompleted (goal (pre_save
     \<lparr>doc_id = 1, user = 7, amount = 50, period_startDate = 0,
      goal = \<lparr>targetAmount = Some 0, targetDate = None, isCompleted = True, progress = 100\<rparr>\<rparr>))
   \<and> progress (goal (pre_save
     \<lparr>doc_id = 2, user = 7, amount = 50, period_startDate = 0,
      goal = \<lparr>targetAmount = None, targetDate = None, isCompleted = True, progress = 100\<rparr>\<rparr>))
   = 100"
  using pre_save_frame_without_target
     [of "\<lparr>doc_id = 1, user = 7, amount = 50, period_startDate = 0,
      goal = \<lparr>targetAmount = Some 0, targetDate = None, isCompleted = True, progress = 100\<rparr>\<rparr>"]
    pre_save_frame_without_target
     [of "\<lparr>doc_id = 2, user = 7, amount = 50, period_startDate = 0,
      goal = \<lparr>targetAmount = None, targetDate = None, isCompleted = True, progress = 100\<rparr>\<rparr>"]
  by simp

section \<open>Owner scoping of the single fetch\<close>

lemma find_filter_owner:
  "find (\<lambda>s. doc_id s = i \<and> user s = uid) (filter (\<lambda>s. user s = uid) xs) =
   find (\<lambda>s. doc_id s = i \<and> user s = uid) xs"
  by (induction xs) auto

lemma get_savings_by_id_404:
  assumes "connected d" and "\<forall>s \<in> set (docs d). doc_id s = i \<longrightarrow> user s \<noteq> uid"
  shows "get_savings_by_id d uid i = (404, Msg ''Savings entry not found'')"
proof -
  have "find (\<lambda>s. doc_id s = i \<and> user s = uid) (docs d) = None"
    using assms(2) by (auto simp: find_None_iff)
  then show ?thesis
    using assms(1) by (simp add: get_savings_by_id_def findOne_def)
qed

lemma get_savings_by_id_own_docs:
  "get_savings_by_id d uid i =
   get_savings_by_id (d\<lparr>docs := filter (\<lambda>s. user s = uid) (docs d)\<rparr>) uid i"
  by (simp add: get_savings_by_id_def findOne_def find_filter_owner)

lemma get_savings_by_id_200:
  assumes "fst (get_savings_by_id d uid i) = 200"
  shows "\<exists>s \<in> set (docs d). doc_id s = i \<and> user s = uid
           \<and> get_savings_by_id d uid i = (200, Data s)"
proof -
  from assms obtain s where f: "find (\<lambda>s. doc_id s = i \<and> user s = uid) (docs d) = Some s"
    and r: "get_savings_by_id d uid i = (200, Data s)"
    by (auto simp: get_savings_by_id_def findOne_def split: if_splits option.splits)
  from f have "s \<in> set (docs d) \<and> doc_id s = i \<and> user s = uid"
    by (auto simp: find_Some_iff)
  with r show ?thesis by blast
qed

text \<open>
  Claim C9. On a reachable store, a fetch by an identifier that no stored document has
  and a fetch by the identifier of a document of another owner get the same answer:
  404 with the message that the entry was not found. The answer of the route is the
  answer it would give on the caller's own documents alone, its status is 200, 404 or
  500 and never another one, and a 200 carries a document of the caller with that
  identifier.
\<close>

theorem get_savings_by_id_not_found:
  "(connected d \<and> (\<forall>s \<in> set (docs d). doc_id s \<noteq> i) \<longrightarrow>
      get_savings_by_id d uid i = (404, Msg ''Savings entry not found''))
   \<and> (connected d \<and> (\<exists>s \<in> set (docs d). doc_id s = i)
        \<and> (\<forall>s \<in> set (docs d). doc_id s = i \<longrightarrow> user s \<noteq> uid) \<longrightarrow>
      get_savings_by_id d uid i = (404, Msg ''Savings entry not found''))
   \<and> get_savings_by_id d uid i =
       get_savings_by_id (d\<lparr>docs := filter (\<lambda>s. user s = uid) (docs d)\<rparr>) uid i
   \<and> (fst (get_savings_by_id d uid i) = 200 \<or> fst (get_savings_by_id d uid i) = 404
        \<or> fst (get_savings_by_id d uid i) = 500)
   \<and> (fst (get_savings_by_id d uid i) = 200 \<longrightarrow>
        (\<exists>s \<in> set (docs d). doc_id s = i \<and> user s = uid
           \<and> get_savings_by_id d uid i = (200, Data s)))"
proof (intro conjI impI)
  assume "connected d \<and> (\<forall>s \<in> set (docs d). doc_id s \<noteq> i)"
  then show "get_savings_by_id d uid i = (404, Msg ''Savings entry not found'')"
    using get_savings_by_id_404[of d i uid] by blast
next
  assume "connected d \<and> (\<exists>s \<in> set (docs d). doc_id s = i)
        \<and> (\<forall>s \<in> set (docs d). doc_id s = i \<longrightarrow> user s \<noteq> uid)"
  then show "get_savings_by_id d uid i = (404, Msg ''Savings entry not found'')"
    using get_savings_by_id_404[of d i uid] by blast
next
  show "get_savings_by_id d uid i =
       get_savings_by_id (d\<lparr>docs := filter (\<lambda>s. user s = uid) (docs d)\<rparr>) uid i"
    by (rule get_savings_by_id_own_docs)
next
  show "fst (get_savings_by_id d uid i) = 200 \<or> fst (get_savings_by_id d uid i) = 404
        \<or> fst (get_savings_by_id d uid i) = 500"
    by (simp add: get_savings_by_id_def findOne_def split: option.splits)
next
  assume "fst (get_savings_by_id d uid i) = 200"
  then show "\<exists>s \<in> set (docs d). doc_id s = i \<and> user s = uid
           \<and> get_savings_by_id d uid i = (200, Data s)"
    by (rule get_savings_by_id_200)
qed

theorem get_savings_by_id_not_found_witness:
  "get_savings_by_id
     \<lparr>connected = True, docs =
       [\<lparr>doc_id = 1, user = 8, amount = 50, period_startDate = 0,
         goal = \<lparr>targetAmount = None, targetDate = None, isCompleted = False, progress = 0\<rparr>\<rparr>]\<rparr>
     7 1
   = (404, Msg ''Savings entry not found'')
   \<and> get_savings_by_id \<lparr>connected = True, docs = []\<rparr> 7 1
   = (404, Msg ''Savings entry not found'')
   \<and> get_savings_by_id
     \<lparr>connected = True, docs =
       [\<lparr>doc_id = 1, user = 8, amount = 50, period_startDate = 0,
         goal = \<lparr>targetAmount = None, targetDate = None, isCompleted = False, progress = 0\<rparr>\<rparr>]\<rparr>
     8 1
   = (200, Data \<lparr>doc_id = 1, user = 8, amount = 50, period_startDate = 0,
         goal = \<lparr>targetAmount = None, targetDate = None, isCompleted = False, progress = 0\<rparr>\<rparr>)"
proof -
  let ?s = "\<lparr>doc_id = 1, user = 8, amount = 50, period_startDate = 0,
         goal = \<lparr>targetAmount = None, targetDate = None, isCompleted = False, progress = 0\<rparr>\<rparr>"
  have own: "fst (get_savings_by_id \<lparr>connected = True, docs = [?s]\<rparr> 8 1) = 200"
    by (simp add: get_savings_by_id_def findOne_def)
  show ?thesis
    using get_savings_by_id_not_found [of "\<lparr>connected = True, docs = [?s]\<rparr>" 1 7]
      get_savings_by_id_not_found [of "\<lparr>connected = True, docs = []\<rparr>" 1 7]
      get_savings_by_id_not_found [of "\<lparr>connected = True, docs = [?s]\<rparr>" 1 8] own
    by simp
qed

section \<open>Monthly trends\<close>

lemma monthly_loop_eq:
  "monthly_loop me ms m acc = acc @ map (month_entry_of me ms) [m..12]"
proof (induction me ms m acc rule: monthly_loop.induct)
  case (1 me ms m acc)
  show ?case
  proof (cases "m \<le> 12")
    case True
    then have "monthly_loop me ms m acc =
        monthly_loop me ms (m + 1) (acc @ [month_entry_of me ms m])"
      by (simp add: monthly_loop.simps[of me ms m acc])
    also have "\<dots> = (acc @ [month_entry_of me ms m]) @ map (month_entry_of me ms) [m + 1..12]"
      using "1.IH"[OF True] .
    also have "\<dots> = acc @ map (month_entry_of me ms) [m..12]"
      using True by (simp add: upto_rec1[of m 12])
    finally show ?thesis .
  next
    case False
    then show ?thesis by (simp add: monthly_loop.simps[of me ms m acc])
  qed
qed

lemma months_of_year: "[1..12] = [1, 2, 3, 4, 5, 6, 7, 8, 9, 10, 11, 12 :: int]"
  by (simp add: upto_rec1[of 1 12])

lemma monthlyData_eq:
  "monthlyData (monthly_trends_of y me ms) =
   map (month_entry_of me ms) [1, 2, 3, 4, 5, 6, 7, 8, 9, 10, 11, 12]"
  by (simp add: monthly_trends_of_def Let_def monthly_loop_eq months_of_year)

lemma month_entry_of_month: "month (month_entry_of me ms m) = m"
  by (simp add: month_entry_of_def Let_def)

lemma month_entry_of_no_expense:
  "\<forall>r \<in> set me. row_month r \<noteq> m \<Longrightarrow> expenses (month_entry_of me ms m) = 0"
proof -
  assume "\<forall>r \<in> set me. row_month r \<noteq> m"
  then have "find (\<lambda>item. row_month item = m) me = None" by (simp add: find_None_iff)
  then show ?thesis by (simp add: month_entry_of_def Let_def)
qed

lemma month_entry_of_no_savings:
  "\<forall>r \<in> set ms. row_month r \<noteq> m \<Longrightarrow> savings (month_entry_of me ms m) = 0"
proof -
  assume "\<forall>r \<in> set ms. row_month r \<noteq> m"
  then have "find (\<lambda>item. row_month item = m) ms = None" by (simp add: find_None_iff)
  then show ?thesis by (simp add: month_entry_of_def Let_def)
qed

text \<open>
  Claim C3. Whatever rows the two aggregations return, and for every year, the monthly
  data of the report has exactly 12 entries, their month numbers are 1 to 12 in strictly
  increasing order, and an entry whose month has no row of expenses (of savings) reports
  expenses (savings) of 0. The route's own loop fills the months in.
\<close>

theorem monthly_trends_twelve_months:
  "length (monthlyData (monthly_trends_of y me ms)) = 12
   \<and> map month (monthlyData (monthly_trends_of y me ms)) =
       [1, 2, 3, 4, 5, 6, 7, 8, 9, 10, 11, 12]
   \<and> sorted_wrt (<) (map month (monthlyData (monthly_trends_of y me ms)))
   \<and> (\<forall>e \<in> set (monthlyData (monthly_trends_of y me ms)).
         (\<forall>r \<in> set me. row_month r \<noteq> month e) \<longrightarrow> expenses e = 0)
   \<and> (\<forall>e \<in> set (monthlyData (monthly_trends_of y me ms)).
         (\<forall>r \<in> set ms. row_month r \<noteq> month e) \<longrightarrow> savings e = 0)"
proof (intro conjI ballI impI)
  show "length (monthlyData (monthly_trends_of y me ms)) = 12"
    by (simp add: monthlyData_eq)
  show m: "map month (monthlyData (monthly_trends_of y me ms)) =
       [1, 2, 3, 4, 5, 6, 7, 8, 9, 10, 11, 12]"
    by (simp add: monthlyData_eq month_entry_of_month)
  show "sorted_wrt (<) (map month (monthlyData (monthly_trends_of y me ms)))"
    unfolding m by simp
next
  fix e
  assume e: "e \<in> set (monthlyData (monthly_trends_of y me ms))"
    and none: "\<forall>r \<in> set me. row_month r \<noteq> month e"
  from e obtain m where "e = month_entry_of me ms m"
    unfolding monthlyData_eq by auto
  with none show "expenses e = 0"
    using month_entry_of_no_expense[of me m ms] by (simp add: month_entry_of_month)
next
  fix e
  assume e: "e \<in> set (monthlyData (monthly_trends_of y me ms))"
    and none: "\<forall>r \<in> set ms. row_month r \<noteq> month e"
  from e obtain m where "e = month_entry_of me ms m"
    unfolding monthlyData_eq by auto
  with none show "savings e = 0"
    using month_entry_of_no_savings[of ms m me] by (simp add: month_entry_of_month)
qed

theorem monthly_trends_twelve_months_witness:
  "map month (monthlyData (monthly_trends_of 2024
      [\<lparr>row_month = 3, month_total = 100, month_count = 2\<rparr>] [])) =
     [1, 2, 3, 4, 5, 6, 7, 8, 9, 10, 11, 12]
   \<and> map expenses (monthlyData (monthly_trends_of 2024
      [\<lparr>row_month = 3, month_total = 100, month_count = 2\<rparr>] [])) =
     [0, 0, 100, 0, 0, 0, 0, 0, 0, 0, 0, 0]
   \<and> map savings (monthlyData (monthly_trends_of 2024
      [\<lparr>row_month = 3, month_total = 100, month_count = 2\<rparr>] [])) =
     [0, 0, 0, 0, 0, 0, 0, 0, 0, 0, 0, 0]"
proof -
  have "map expenses (monthlyData (monthly_trends_of 2024
      [\<lparr>row_month = 3, month_total = 100, month_count = 2\<rparr>] [])) =
     [0, 0, 100, 0, 0, 0, 0, 0, 0, 0, 0, 0]"
    by (simp add: monthlyData_eq month_entry_of_def Let_def)
  moreover have "map savings (monthlyData (monthly_trends_of 2024
      [\<lparr>row_month = 3, month_total = 100, month_count = 2\<rparr>] [])) =
     [0, 0, 0, 0, 0, 0, 0, 0, 0, 0, 0, 0]"
    by (simp add: monthlyData_eq month_entry_of_def Let_def)
  ultimately show ?thesis
    using monthly_trends_twelve_months
      [of 2024 "[\<lparr>row_month = 3, month_total = 100, month_count = 2\<rparr>]" "[]"]
    by simp
qed

section \<open>The filter of the listings\<close>

lemma truthy_validated: "v \<noteq> Some [] \<Longrightarrow> truthy v \<longleftrightarrow> v \<noteq> None"
  by (cases v) (simp_all add: truthy_def)

lemma if_truthy_validated: "v \<noteq> Some [] \<Longrightarrow> if_truthy v f = map_option f v"
  by (cases v) (simp_all add: if_truthy_def)

lemma savings_list_query_fields:
  "q_user (savings_list_query uid rq) = uid"
  "q_date (savings_list_query uid rq) = q_date (date_filter rq (owner_query uid))"
  "q_amount (savings_list_query uid rq) = q_amount (amount_filter rq (owner_query uid))"
  "q_paymentMethod (savings_list_query uid rq) = None"
  "q_currency (savings_list_query uid rq) = None"
  by (simp_all add: savings_list_query_def Let_def date_filter_def amount_filter_def
      owner_query_def)

lemma expense_list_query_fields:
  "q_user (expense_list_query uid rq) = uid"
  "q_date (expense_list_query uid rq) = q_date (date_filter rq (owner_query uid))"
  "q_amount (expense_list_query uid rq) = q_amount (amount_filter rq (owner_query uid))"
  "q_type (expense_list_query uid rq) = None"
  "q_currency (expense_list_query uid rq) = None"
  by (simp_all add: expense_list_query_def Let_def date_filter_def amount_filter_def
      owner_query_def)

lemma date_filter_validated:
  assumes "bounds_validated rq"
  shows "q_date (date_filter rq (owner_query uid)) =
     (if startDate rq = None \<and> endDate rq = None then None
      else Some \<lparr>gte = map_option NewDate (startDate rq),
                 lte = map_option NewDate (endDate rq)\<rparr>)"
  using assms
  by (simp add: date_filter_def owner_query_def bounds_validated_def truthy_validated
      if_truthy_validated)

lemma amount_filter_validated:
  assumes "bounds_validated rq"
  shows "q_amount (amount_filter rq (owner_query uid)) =
     (if minAmount rq = None \<and> maxAmount rq = None then None
      else Some \<lparr>gte = map_option ParseFloat (minAmount rq),
                 lte = map_option ParseFloat (maxAmount rq)\<rparr>)"
  using assms
  by (simp add: amount_filter_def owner_query_def bounds_validated_def truthy_validated
      if_truthy_validated)

text \<open>
  Claim C1. The query built for the savings listing and for the expense listing always
  carries the owner. For criteria that passed the route's validators (a supplied date or
  amount bound is not the empty string), the query has a date clause exactly when a
  start date or an end date was supplied, and an amount clause exactly when a minimum
  or a maximum was supplied; the clause holds one bound for each supplied side and no
  bound for a side that was not supplied. A supplied minimum of \<open>0\<close> arrives as the
  string \<open>0\<close>, which is truthy, so it yields an amount clause with that lower bound
  alone.
\<close>

theorem list_query_clauses:
  "q_user (savings_list_query uid rq) = uid
   \<and> q_user (expense_list_query uid rq) = uid
   \<and> (bounds_validated rq \<longrightarrow>
        (q_date (savings_list_query uid rq) \<noteq> None
           \<longleftrightarrow> startDate rq \<noteq> None \<or> endDate rq \<noteq> None)
      \<and> (q_amount (savings_list_query uid rq) \<noteq> None
           \<longleftrightarrow> minAmount rq \<noteq> None \<or> maxAmount rq \<noteq> None)
      \<and> (q_date (expense_list_query uid rq) \<noteq> None
           \<longleftrightarrow> startDate rq \<noteq> None \<or> endDate rq \<noteq> None)
      \<and> (q_amount (expense_list_query uid rq) \<noteq> None
           \<longleftrightarrow> minAmount rq \<noteq> None \<or> maxAmount rq \<noteq> None)
      \<and> q_date (savings_list_query uid rq) =
          (if startDate rq = None \<and> endDate rq = None then None
           else Some \<lparr>gte = map_option NewDate (startDate rq),
                      lte = map_option NewDate (endDate rq)\<rparr>)
      \<and> q_amount (savings_list_query uid rq) =
          (if minAmount rq = None \<and> maxAmount rq = None then None
           else Some \<lparr>gte = map_option ParseFloat (minAmount rq),
                      lte = map_option ParseFloat (maxAmount rq)\<rparr>)
      \<and> q_date (expense_list_query uid rq) = q_date (savings_list_query uid rq)
      \<and> q_amount (expense_list_query uid rq) = q_amount (savings_list_query uid rq))
   \<and> (bounds_validated rq \<and> minAmount rq = Some lo \<and> maxAmount rq = None \<longrightarrow>
        q_amount (savings_list_query uid rq) = Some \<lparr>gte = Some (ParseFloat lo), lte = None\<rparr>)
   \<and> (bounds_validated rq \<and> minAmount rq = None \<and> maxAmount rq = Some hi \<longrightarrow>
        q_amount (savings_list_query uid rq) = Some \<lparr>gte = None, lte = Some (ParseFloat hi)\<rparr>)
   \<and> (bounds_validated rq \<and> startDate rq = Some lo \<and> endDate rq = None \<longrightarrow>
        q_date (savings_list_query uid rq) = Some \<lparr>gte = Some (NewDate lo), lte = None\<rparr>)
   \<and> (bounds_validated rq \<and> startDate rq = None \<and> endDate rq = Some hi \<longrightarrow>
        q_date (savings_list_query uid rq) = Some \<lparr>gte = None, lte = Some (NewDate hi)\<rparr>)
   \<and> (minAmount rq = Some ''0'' \<and> maxAmount rq = None \<longrightarrow>
        q_amount (savings_list_query uid rq) = Some \<lparr>gte = Some (ParseFloat ''0''), lte = None\<rparr>
        \<and> q_amount (expense_list_query uid rq) =
            Some \<lparr>gte = Some (ParseFloat ''0''), lte = None\<rparr>)"
proof (intro conjI impI)
  show "q_user (savings_list_query uid rq) = uid" by (rule savings_list_query_fields)
  show "q_user (expense_list_query uid rq) = uid" by (rule expense_list_query_fields)
next
  assume v: "bounds_validated rq"
  note d = date_filter_validated[OF v, of uid] and a = amount_filter_validated[OF v, of uid]
  show "(q_date (savings_list_query uid rq) \<noteq> None)
           = (startDate rq \<noteq> None \<or> endDate rq \<noteq> None)"
    by (simp add: savings_list_query_fields d)
  show "(q_amount (savings_list_query uid rq) \<noteq> None)
           = (minAmount rq \<noteq> None \<or> maxAmount rq \<noteq> None)"
    by (simp add: savings_list_query_fields a)
  show "(q_date (expense_list_query uid rq) \<noteq> None)
           = (startDate rq \<noteq> None \<or> endDate rq \<noteq> None)"
    by (simp add: expense_list_query_fields d)
  show "(q_amount (expense_list_query uid rq) \<noteq> None)
           = (minAmount rq \<noteq> None \<or> maxAmount rq \<noteq> None)"
    by (simp add: expense_list_query_fields a)
  show "q_date (savings_list_query uid rq) =
          (if startDate rq = None \<and> endDate rq = None then None
           else Some \<lparr>gte = map_option NewDate (startDate rq),
                      lte = map_option NewDate (endDate rq)\<rparr>)"
    by (simp only: savings_list_query_fields d)
  show "q_amount (savings_list_query uid rq) =
          (if minAmount rq = None \<and> maxAmount rq = None then None
           else Some \<lparr>gte = map_option ParseFloat (minAmount rq),
                      lte = map_option ParseFloat (maxAmount rq)\<rparr>)"
    by (simp only: savings_list_query_fields a)
  show "q_date (expense_list_query uid rq) = q_date (savings_list_query uid rq)"
    by (simp only: savings_list_query_fields expense_list_query_fields)
  show "q_amount (expense_list_query uid rq) = q_amount (savings_list_query uid rq)"
    by (simp only: savings_list_query_fields expense_list_query_fields)
next
  assume "bounds_validated rq \<and> minAmount rq = Some lo \<and> maxAmount rq = None"
  then show "q_amount (savings_list_query uid rq) =
      Some \<lparr>gte = Some (ParseFloat lo), lte = None\<rparr>"
    using amount_filter_validated[of rq uid] by (simp add: savings_list_query_fields)
next
  assume "bounds_validated rq \<and> minAmount rq = None \<and> maxAmount rq = Some hi"
  then show "q_amount (savings_list_query uid rq) =
      Some \<lparr>gte = None, lte = Some (ParseFloat hi)\<rparr>"
    using amount_filter_validated[of rq uid] by (simp add: savings_list_query_fields)
next
  assume "bounds_validated rq \<and> startDate rq = Some lo \<and> endDate rq = None"
  then show "q_date (savings_list_query uid rq) =
      Some \<lparr>gte = Some (NewDate lo), lte = None\<rparr>"
    using date_filter_validated[of rq uid] by (simp add: savings_list_query_fields)
next
  assume "bounds_validated rq \<and> startDate rq = None \<and> endDate rq = Some hi"
  then show "q_date (savings_list_query uid rq) =
      Some \<lparr>gte = None, lte = Some (NewDate hi)\<rparr>"
    using date_filter_validated[of rq uid] by (simp add: savings_list_query_fields)
next
  assume z: "minAmount rq = Some ''0'' \<and> maxAmount rq = None"
  then have "q_amount (amount_filter rq (owner_query uid)) =
      Some \<lparr>gte = Some (ParseFloat ''0''), lte = None\<rparr>"
    by (simp add: amount_filter_def owner_query_def truthy_def if_truthy_def)
  then show "q_amount (savings_list_query uid rq) =
        Some \<lparr>gte = Some (ParseFloat ''0''), lte = None\<rparr>"
    and "q_amount (expense_list_query uid rq) =
        Some \<lparr>gte = Some (ParseFloat ''0''), lte = None\<rparr>"
    by (simp_all add: savings_list_query_fields expense_list_query_fields)
qed

theorem list_query_clauses_witness:
  "savings_list_query 7
     \<lparr>startDate = None, endDate = Some ''2024-12-31'', type = Some ''Goal'', category = None,
      minAmount = Some ''0'', maxAmount = None, paymentMethod = None, currency = Some ''UGX''\<rparr>
   = \<lparr>q_user = 7,
      q_date = Some \<lparr>gte = None, lte = Some (NewDate ''2024-12-31'')\<rparr>,
      q_type = Some ''Goal'', q_category = None,
      q_amount = Some \<lparr>gte = Some (ParseFloat ''0''), lte = None\<rparr>,
      q_paymentMethod = None, q_currency = None\<rparr>
   \<and> q_date (savings_list_query 7
     \<lparr>startDate = None, endDate = None, type = None, category = None,
      minAmount = None, maxAmount = None, paymentMethod = None, currency = None\<rparr>) = None
   \<and> q_amount (savings_list_query 7
     \<lparr>startDate = None, endDate = None, type = None, category = None,
      minAmount = None, maxAmount = None, paymentMethod = None, currency = None\<rparr>) = None"
proof -
  let ?rq = "\<lparr>startDate = None, endDate = Some ''2024-12-31'', type = Some ''Goal'',
      category = None, minAmount = Some ''0'', maxAmount = None, paymentMethod = None,
      currency = Some ''UGX''\<rparr>"
  let ?none = "\<lparr>startDate = None, endDate = None, type = None, category = None,
      minAmount = None, maxAmount = None, paymentMethod = None, currency = None\<rparr>"
  have v: "bounds_validated ?rq" "bounds_validated ?none"
    by (simp_all add: bounds_validated_def)
  have full: "savings_list_query 7 ?rq
     = \<lparr>q_user = 7,
        q_date = Some \<lparr>gte = None, lte = Some (NewDate ''2024-12-31'')\<rparr>,
        q_type = Some ''Goal'', q_category = None,
        q_amount = Some \<lparr>gte = Some (ParseFloat ''0''), lte = None\<rparr>,
        q_paymentMethod = None, q_currency = None\<rparr>"
    by (simp add: savings_list_query_def Let_def owner_query_def date_filter_def
        amount_filter_def truthy_def if_truthy_def)
  show ?thesis
    using list_query_clauses [of 7 ?none] list_query_clauses [of 7 ?rq "''0''"] v full
    by simp
qed

section \<open>Rounding to the nearest double\<close>

lemma round_half_even_cases:
  "round_half_even y = \<lfloor>y\<rfloor> \<or> round_half_even y = \<lfloor>y\<rfloor> + 1"
  by (simp add: round_half_even_def Let_def)

lemma round_half_even_of_int: "round_half_even (of_int m) = m"
  by (simp add: round_half_even_def Let_def)

lemma round_half_even_ge: "of_int N \<le> y \<Longrightarrow> N \<le> round_half_even y"
proof -
  assume "of_int N \<le> y"
  then have "N \<le> \<lfloor>y\<rfloor>" by (simp add: le_floor_iff)
  then show ?thesis using round_half_even_cases[of y] by linarith
qed

lemma round_half_even_le: "y \<le> of_int N \<Longrightarrow> round_half_even y \<le> N"
proof (cases "y = of_int N")
  case True
  then show ?thesis by (simp add: round_half_even_of_int)
next
  case False
  assume "y \<le> of_int N"
  with False have "y < of_int N" by simp
  then have "\<lfloor>y\<rfloor> < N" by (simp add: floor_less_iff)
  then show ?thesis using round_half_even_cases[of y] by linarith
qed

lemma round_half_even_gt:
  assumes "of_int N + 1 / 2 < y"
  shows "N + 1 \<le> round_half_even y"
proof -
  have f: "N \<le> \<lfloor>y\<rfloor>" using assms by (simp add: le_floor_iff)
  show ?thesis
  proof (cases "N = \<lfloor>y\<rfloor>")
    case True
    then have "1 / 2 < y - of_int \<lfloor>y\<rfloor>" using assms by simp
    then have "round_half_even y = \<lfloor>y\<rfloor> + 1"
      by (simp add: round_half_even_def Let_def)
    then show ?thesis using True by simp
  next
    case False
    then have "N + 1 \<le> \<lfloor>y\<rfloor>" using f by simp
    then show ?thesis using round_half_even_cases[of y] by linarith
  qed
qed

lemma of_int_le_pow2: "(k::int) \<le> 2 ^ m \<Longrightarrow> (of_int k :: rat) \<le> 2 ^ m"
proof -
  assume "k \<le> 2 ^ m"
  then have "(of_int k :: rat) \<le> of_int (2 ^ m)" by (simp only: of_int_le_iff)
  then show ?thesis by simp
qed

lemma pow2_le_of_int: "2 ^ m \<le> (k::int) \<Longrightarrow> (2 ^ m :: rat) \<le> of_int k"
proof -
  assume "2 ^ m \<le> k"
  then have "(of_int (2 ^ m) :: rat) \<le> of_int k" by (simp only: of_int_le_iff)
  then show ?thesis by simp
qed

lemma exponent_bounds:
  assumes "0 < x"
  shows "2 powi exponent x \<le> x" and "x < 2 powi (exponent x + 1)"
proof -
  show "2 powi exponent x \<le> x"
  proof (cases "1 \<le> x")
    case True
    then have n: "0 < \<lfloor>x\<rfloor>" by simp
    have e: "exponent x = int (nat (bitlen \<lfloor>x\<rfloor> - 1))"
      using True n bitlen_ge_iff_power[of 1 "\<lfloor>x\<rfloor>"] by (simp add: exponent_def)
    have "(2::int) ^ nat (bitlen \<lfloor>x\<rfloor> - 1) \<le> \<lfloor>x\<rfloor>" using bitlen_bounds[OF n] by simp
    then have "(2 ^ nat (bitlen \<lfloor>x\<rfloor> - 1) :: rat) \<le> of_int \<lfloor>x\<rfloor>"
      by (rule pow2_le_of_int)
    also have "\<dots> \<le> x" by (rule of_int_floor_le)
    finally show ?thesis unfolding e power_int_of_nat .
  next
    case False
    with assms have x1: "x < 1" by simp
    then have "1 < 1 / x" using assms by simp
    then have c: "2 \<le> \<lceil>1 / x\<rceil>" by (simp add: le_ceiling_iff)
    then have n: "0 < \<lceil>1 / x\<rceil> - 1" by simp
    let ?m = "nat (bitlen (\<lceil>1 / x\<rceil> - 1))"
    have e: "exponent x = - int ?m" using False by (simp add: exponent_def bitlen_nonneg)
    have "\<lceil>1 / x\<rceil> - 1 < 2 ^ ?m" using bitlen_bounds[OF n] by simp
    then have "\<lceil>1 / x\<rceil> \<le> 2 ^ ?m" by simp
    then have "(of_int \<lceil>1 / x\<rceil> :: rat) \<le> 2 ^ ?m" by (rule of_int_le_pow2)
    with le_of_int_ceiling[of "1 / x"] have "1 / x \<le> 2 ^ ?m" by (rule order_trans)
    then have "1 \<le> 2 ^ ?m * x" using assms by (simp add: pos_divide_le_eq mult.commute)
    then have "1 / 2 ^ ?m \<le> x" by (simp add: pos_divide_le_eq mult.commute)
    then show ?thesis unfolding e by (simp only: power_int_minus_divide power_int_of_nat)
  qed
  show "x < 2 powi (exponent x + 1)"
  proof (cases "1 \<le> x")
    case True
    then have n: "0 < \<lfloor>x\<rfloor>" by simp
    have b1: "1 \<le> bitlen \<lfloor>x\<rfloor>" using n bitlen_ge_iff_power[of 1 "\<lfloor>x\<rfloor>"] by simp
    then have e: "exponent x + 1 = int (nat (bitlen \<lfloor>x\<rfloor>))"
      using True by (simp add: exponent_def)
    have "\<lfloor>x\<rfloor> < 2 ^ nat (bitlen \<lfloor>x\<rfloor>)" using bitlen_bounds[OF n] by simp
    then have "\<lfloor>x\<rfloor> + 1 \<le> 2 ^ nat (bitlen \<lfloor>x\<rfloor>)" by simp
    then have "(of_int (\<lfloor>x\<rfloor> + 1) :: rat) \<le> 2 ^ nat (bitlen \<lfloor>x\<rfloor>)"
      by (rule of_int_le_pow2)
    moreover have "x < of_int (\<lfloor>x\<rfloor> + 1)" by linarith
    ultimately have "x < 2 ^ nat (bitlen \<lfloor>x\<rfloor>)" using less_le_trans by blast
    then show ?thesis unfolding e power_int_of_nat .
  next
    case False
    with assms have x1: "x < 1" by simp
    then have "1 < 1 / x" using assms by simp
    then have c: "2 \<le> \<lceil>1 / x\<rceil>" by (simp add: le_ceiling_iff)
    then have n: "0 < \<lceil>1 / x\<rceil> - 1" by simp
    let ?b = "bitlen (\<lceil>1 / x\<rceil> - 1)"
    have b1: "1 \<le> ?b" using n bitlen_ge_iff_power[of 1 "\<lceil>1 / x\<rceil> - 1"] by simp
    have e: "exponent x + 1 = - int (nat (?b - 1))"
      using False b1 by (simp add: exponent_def)
    have "(2::int) ^ nat (?b - 1) \<le> \<lceil>1 / x\<rceil> - 1" using bitlen_bounds[OF n] by simp
    then have "(2 ^ nat (?b - 1) :: rat) \<le> of_int (\<lceil>1 / x\<rceil> - 1)"
      by (rule pow2_le_of_int)
    moreover have "of_int (\<lceil>1 / x\<rceil> - 1) < 1 / x" by linarith
    ultimately have "2 ^ nat (?b - 1) < 1 / x" by (rule le_less_trans)
    then have "2 ^ nat (?b - 1) * x < 1" using assms by (simp add: pos_less_divide_eq)
    then have "x < 1 / 2 ^ nat (?b - 1)" by (simp add: pos_less_divide_eq mult.commute)
    then show ?thesis unfolding e by (simp only: power_int_minus_divide power_int_of_nat)
  qed
qed

lemma ulp_pos: "0 < ulp x"
  by (simp add: ulp_def zero_less_power_int)

lemma round_double_pos:
  assumes "0 < x"
  shows "round_double x =
     (if overflow_threshold \<le> of_int (round_half_even (x / ulp x)) * ulp x then PInf
      else Num (of_int (round_half_even (x / ulp x)) * ulp x))"
  using assms by (simp add: round_double_def Let_def)

lemma pow2_powi_le_one: "k \<le> 0 \<Longrightarrow> (2::rat) powi k \<le> 1"
  using power_int_increasing[of k 0 "2::rat"] by simp

lemma exponent_nonneg:
  assumes "1 \<le> x"
  shows "0 \<le> exponent x"
proof (rule ccontr)
  assume "\<not> 0 \<le> exponent x"
  then have "exponent x + 1 \<le> 0" by simp
  then have "(2::rat) powi (exponent x + 1) \<le> 1" by (rule pow2_powi_le_one)
  moreover have "x < 2 powi (exponent x + 1)" using assms exponent_bounds(2)[of x] by simp
  ultimately show False using assms by simp
qed

lemma exponent_le:
  assumes "0 < x" and "x \<le> 2 powi k" and "0 \<le> k"
  shows "exponent x \<le> k"
proof -
  have "(2::rat) powi exponent x \<le> 2 powi k"
    using exponent_bounds(1)[OF assms(1)] assms(2) by (rule order_trans)
  then show ?thesis using power_int_le_imp_le_exp[of "2::rat" "exponent x" k] assms(3) by simp
qed

lemma ulp_of_pos:
  assumes "0 < x" and "- 1022 \<le> exponent x"
  shows "ulp x = 2 powi (exponent x - 52)"
  using assms by (simp add: ulp_def max_def)

text \<open>Below \<open>2^53\<close> the unit in the last place is the inverse of a power of two.\<close>

lemma ulp_inverse_pow2:
  assumes "0 < x" and "- 1022 \<le> exponent x" and "exponent x \<le> 52"
  shows "ulp x = 1 / 2 ^ nat (52 - exponent x)"
proof -
  have "exponent x - 52 = - int (nat (52 - exponent x))" using assms(3) by simp
  then have "ulp x = 2 powi (- int (nat (52 - exponent x)))"
    using ulp_of_pos[OF assms(1,2)] by simp
  then show ?thesis by (simp only: power_int_minus_divide power_int_of_nat)
qed

lemma round_double_on_grid:
  assumes "0 < x" and "x / ulp x = of_int m" and "x < overflow_threshold"
  shows "round_double x = Num x"
proof -
  have "of_int m * ulp x = x"
    using ulp_pos[of x] assms(2)[symmetric] by simp
  then have "of_int (round_half_even (x / ulp x)) * ulp x = x"
    by (simp only: assms(2) round_half_even_of_int)
  then show ?thesis using assms(3) by (simp add: round_double_pos[OF assms(1)])
qed

lemma pow2_lt_overflow: "k < 1024 \<Longrightarrow> (2::rat) ^ k < overflow_threshold"
  unfolding overflow_threshold_def by (rule power_strict_increasing) simp_all

lemma round_double_of_int_exact:
  assumes "0 \<le> n" and "n \<le> 2 ^ 53"
  shows "round_double (of_int n) = Num (of_int n)"
proof (cases "n = 0")
  case True
  then show ?thesis by (simp add: round_double_def)
next
  case False
  let ?x = "of_int n :: rat"
  have pos: "0 < ?x" and one: "1 \<le> ?x" using assms(1) False by simp_all
  have le: "?x \<le> 2 ^ 53" using assms(2) by (rule of_int_le_pow2)
  then have lt: "?x < overflow_threshold" using pow2_lt_overflow[of 53] by simp
  have e0: "0 \<le> exponent ?x" using one by (rule exponent_nonneg)
  have "?x \<le> 2 powi 53" using le power_int_of_nat[of "2::rat" 53] by simp
  then have e53: "exponent ?x \<le> 53" using exponent_le[OF pos] by simp
  show ?thesis
  proof (cases "exponent ?x \<le> 52")
    case True
    have "ulp ?x = 1 / 2 ^ nat (52 - exponent ?x)"
      using pos e0 True by (intro ulp_inverse_pow2) simp_all
    then have "?x / ulp ?x = of_int (n * 2 ^ nat (52 - exponent ?x))" by simp
    then show ?thesis by (rule round_double_on_grid[OF pos _ lt])
  next
    case False
    with e53 have e: "exponent ?x = 53" by simp
    have "2 powi 53 \<le> ?x" using exponent_bounds(1)[OF pos] e by simp
    then have x: "?x = 2 ^ 53" using le power_int_of_nat[of "2::rat" 53] by simp
    have "ulp ?x = 2 powi 1" using ulp_of_pos[OF pos] e0 e by simp
    then have "?x / ulp ?x = of_int (2 ^ 52)" using x by simp
    then show ?thesis by (rule round_double_on_grid[OF pos _ lt])
  qed
qed

lemma round_double_le_pow2:
  assumes "0 < x" and "x \<le> 2 ^ k" and "k < 1024"
  shows "\<exists>y. round_double x = Num y \<and> 0 \<le> y \<and> y \<le> 2 ^ k"
proof -
  let ?e = "max (exponent x) (- 1022)"
  let ?m = "round_half_even (x / ulp x)"
  have xk: "x \<le> 2 powi int k" using assms(2) by (simp only: power_int_of_nat)
  have "exponent x \<le> int k" using exponent_le[OF assms(1) xk] by simp
  then have ek: "?e \<le> int k" by simp
  have u: "ulp x = 2 powi (?e - 52)" using assms(1) by (simp add: ulp_def)
  have "int k = (?e - 52) + int (nat (int k - ?e + 52))" using ek by simp
  then have "(2::rat) powi int k = 2 powi (?e - 52) * 2 powi int (nat (int k - ?e + 52))"
    using power_int_add[of "2::rat" "?e - 52" "int (nat (int k - ?e + 52))"] by simp
  then have grid: "(2::rat) ^ k = ulp x * of_int (2 ^ nat (int k - ?e + 52))"
    unfolding u by (simp only: power_int_of_nat of_int_power of_int_numeral)
  have "x / ulp x \<le> of_int (2 ^ nat (int k - ?e + 52))"
    using assms(2) ulp_pos[of x] unfolding grid by (simp add: pos_divide_le_eq mult.commute)
  then have m_le: "?m \<le> 2 ^ nat (int k - ?e + 52)" by (rule round_half_even_le)
  have "(of_int 0 :: rat) \<le> x / ulp x" using assms(1) ulp_pos[of x] by simp
  then have m_ge: "0 \<le> ?m" by (rule round_half_even_ge)
  let ?y = "of_int ?m * ulp x"
  have y0: "0 \<le> ?y" using m_ge ulp_pos[of x] by simp
  have "(of_int ?m :: rat) \<le> of_int (2 ^ nat (int k - ?e + 52))"
    using m_le by (simp only: of_int_le_iff)
  then have "?y \<le> of_int (2 ^ nat (int k - ?e + 52)) * ulp x"
    using ulp_pos[of x] by (simp only: mult_le_cancel_right_pos)
  then have yk: "?y \<le> 2 ^ k" unfolding grid by (simp only: mult.commute)
  then have "?y < overflow_threshold" using pow2_lt_overflow[OF assms(3)] by (rule le_less_trans)
  then have "round_double x = Num ?y" by (simp add: round_double_pos[OF assms(1)])
  with y0 yk show ?thesis by blast
qed

lemma round_double_nonneg_le_pow2:
  assumes "0 \<le> x" and "x \<le> 2 ^ k" and "k < 1024"
  shows "\<exists>y. round_double x = Num y \<and> 0 \<le> y \<and> y \<le> 2 ^ k"
proof (cases "x = 0")
  case True
  then show ?thesis by (simp add: round_double_def)
next
  case False
  with assms(1) have "0 < x" by simp
  then show ?thesis using assms(2,3) by (rule round_double_le_pow2)
qed

lemma round_half_even_error: "\<bar>of_int (round_half_even y) - y\<bar> \<le> 1 / 2"
proof -
  define r where "r = y - of_int \<lfloor>y\<rfloor>"
  have r: "0 \<le> r" "r < 1" unfolding r_def by linarith+
  have e: "round_half_even y =
      (if r < 1 / 2 then \<lfloor>y\<rfloor> else if 1 / 2 < r then \<lfloor>y\<rfloor> + 1
       else if even \<lfloor>y\<rfloor> then \<lfloor>y\<rfloor> else \<lfloor>y\<rfloor> + 1)"
    by (simp only: round_half_even_def Let_def r_def)
  have "(of_int (round_half_even y) - y = - r \<and> r \<le> 1 / 2)
        \<or> (of_int (round_half_even y) - y = 1 - r \<and> 1 / 2 \<le> r)"
    unfolding e by (simp add: r_def)
  then show ?thesis using r by (auto simp: abs_if)
qed

lemma round_double_value:
  assumes "0 < x" and "round_double x = Num y"
  shows "y = of_int (round_half_even (x / ulp x)) * ulp x"
  using assms(2) unfolding round_double_pos[OF assms(1)] by (simp split: if_splits)

lemma round_double_error:
  assumes "0 < x" and "round_double x = Num y"
  shows "\<bar>y - x\<bar> \<le> ulp x / 2"
proof -
  let ?m = "of_int (round_half_even (x / ulp x)) :: rat"
  have u: "0 < ulp x" by (rule ulp_pos)
  have y: "y = ?m * ulp x" using assms by (rule round_double_value)
  have "y - x = (?m - x / ulp x) * ulp x" using u by (simp add: y left_diff_distrib)
  then have "\<bar>y - x\<bar> = \<bar>?m - x / ulp x\<bar> * ulp x" using u by (simp add: abs_mult)
  also have "\<dots> \<le> 1 / 2 * ulp x"
    using round_half_even_error[of "x / ulp x"] u by (simp only: mult_le_cancel_right_pos)
  finally show ?thesis by simp
qed

lemma ulp_le:
  assumes "0 < x" and "x \<le> 2 powi k" and "0 \<le> k"
  shows "ulp x \<le> 2 powi (k - 52)"
proof -
  have "exponent x \<le> k" using assms by (rule exponent_le)
  then have "max (exponent x) (- 1022) - 52 \<le> k - 52" using assms(3) by simp
  then have "(2::rat) powi (max (exponent x) (- 1022) - 52) \<le> 2 powi (k - 52)"
    by (intro power_int_increasing) simp_all
  then show ?thesis using assms(1) by (simp add: ulp_def)
qed

text \<open>Rounding does not cross an integer that is a double of the same or a finer grid.\<close>

lemma round_double_le_of_int:
  assumes "0 < x" and "x \<le> of_int N" and "N \<le> 2 ^ 52"
  shows "\<exists>y. round_double x = Num y \<and> 0 \<le> y \<and> y \<le> of_int N"
proof -
  let ?e = "max (exponent x) (- 1022)"
  let ?m = "round_half_even (x / ulp x)"
  have u0: "0 < ulp x" by (rule ulp_pos)
  have "(of_int N :: rat) \<le> 2 ^ 52" using assms(3) by (rule of_int_le_pow2)
  then have x52: "x \<le> 2 powi 52"
    using assms(2) power_int_of_nat[of "2::rat" 52] by simp
  have "exponent x \<le> 52" using exponent_le[OF assms(1) x52] by simp
  then have e52: "?e \<le> 52" by simp
  define d where "d = nat (52 - ?e)"
  have de: "?e - 52 = - int d" using e52 by (simp add: d_def)
  have "ulp x = 2 powi (- int d)" using assms(1) de by (simp add: ulp_def)
  then have u: "ulp x = 1 / 2 ^ d" by (simp only: power_int_minus_divide power_int_of_nat)
  have "x / ulp x \<le> of_int N / ulp x" using assms(2) u0 by (simp only: divide_le_cancel) simp
  also have "of_int N / ulp x = of_int (N * 2 ^ d)" by (simp add: u)
  finally have m_le: "?m \<le> N * 2 ^ d" by (rule round_half_even_le)
  have "(of_int 0 :: rat) \<le> x / ulp x" using assms(1) u0 by simp
  then have m_ge: "0 \<le> ?m" by (rule round_half_even_ge)
  let ?y = "of_int ?m * ulp x"
  have y0: "0 \<le> ?y" using m_ge u0 by simp
  have "(of_int ?m :: rat) \<le> of_int (N * 2 ^ d)" using m_le by (simp only: of_int_le_iff)
  then have "?y \<le> of_int (N * 2 ^ d) * ulp x"
    using u0 by (simp only: mult_le_cancel_right_pos)
  also have "of_int (N * 2 ^ d) * ulp x = of_int N" by (simp add: u)
  finally have yN: "?y \<le> of_int N" .
  have "?y \<le> 2 ^ 52" using yN \<open>(of_int N :: rat) \<le> 2 ^ 52\<close> by (rule order_trans)
  then have "?y < overflow_threshold" using pow2_lt_overflow[of 52] by simp
  then have "round_double x = Num ?y" by (simp add: round_double_pos[OF assms(1)])
  with y0 yN show ?thesis by blast
qed

text \<open>
  The quotient of a count below \<open>2^53\<close> by a limit from 1 to 100 is rounded to a double
  with the same ceiling: a quotient that is no integer is at least one hundredth away
  from the integers, and the doubles of its binade are closer together than that.
\<close>

lemma round_double_div_ceiling:
  fixes n :: nat and l :: int
  assumes "n < 2 ^ 53" and "1 \<le> l" and "l \<le> 100"
  shows "\<exists>y. round_double (of_nat n / of_int l) = Num y \<and> \<lceil>y\<rceil> = \<lceil>(of_nat n :: rat) / of_int l\<rceil>"
proof (cases "n = 0")
  case True
  then show ?thesis by (simp add: round_double_def)
next
  case False
  define q :: rat where "q = of_nat n / of_int l"
  let ?e = "exponent q"
  have lpos: "(0::rat) < of_int l" using assms(2) by simp
  have npos: "(0::rat) < of_nat n" using False by simp
  have qpos: "0 < q" using lpos npos by (simp add: q_def)
  have ql: "q * of_int l = of_nat n" using lpos by (simp add: q_def)
  have q_le_n: "q \<le> of_nat n"
  proof -
    have "(of_nat n :: rat) \<le> of_nat n * of_int l"
      using assms(2) npos by (simp add: mult_le_cancel_left1)
    then show ?thesis using lpos by (simp add: q_def pos_divide_le_eq)
  qed
  have n53: "(of_nat n :: rat) < 2 ^ 53"
  proof -
    have "(of_nat n :: rat) < of_nat (2 ^ 53)" using assms(1) by (simp only: of_nat_less_iff)
    then show ?thesis by simp
  qed
  have q53: "q < 2 powi 53"
    using q_le_n n53 power_int_of_nat[of "2::rat" 53] by simp
  have e_hi: "?e \<le> 52"
  proof (rule ccontr)
    assume "\<not> ?e \<le> 52"
    then have "53 \<le> ?e" by simp
    then have "(2::rat) powi 53 \<le> 2 powi ?e" by (rule power_int_increasing) simp
    also have "\<dots> \<le> q" using exponent_bounds(1)[OF qpos] .
    finally show False using q53 by simp
  qed
  have q_ge: "1 / 100 \<le> q"
  proof -
    have "(1::rat) \<le> of_nat n" using False by (simp add: Suc_le_eq)
    moreover have "(of_int l :: rat) \<le> 100" using assms(3) by simp
    ultimately have "of_int l \<le> of_nat n * (100::rat)" by linarith
    then show ?thesis using lpos by (simp add: q_def pos_le_divide_eq)
  qed
  have e_lo: "- 1022 \<le> ?e"
  proof (rule ccontr)
    assume "\<not> - 1022 \<le> ?e"
    then have "?e + 1 \<le> - 7" by simp
    then have "(2::rat) powi (?e + 1) \<le> 2 powi (- 7)" by (rule power_int_increasing) simp
    then have "(2::rat) powi (?e + 1) \<le> 1 / 128" by (simp add: power_int_minus_divide)
    moreover have "q < 2 powi (?e + 1)" using exponent_bounds(2)[OF qpos] .
    ultimately show False using q_ge by simp
  qed
  define d :: nat where "d = nat (52 - ?e)"
  have d: "int d = 52 - ?e" using e_hi by (simp add: d_def)
  define K :: int where "K = 2 ^ d"
  have Kpos: "0 < K" by (simp add: K_def)
  have KposR: "(0::rat) < of_int K" using Kpos by simp
  have KR: "(of_int K :: rat) = 2 ^ d" by (simp add: K_def)
  have u: "ulp q = 1 / of_int K"
    using ulp_inverse_pow2[OF qpos e_lo e_hi] by (simp only: KR d_def)
  have qu: "q / ulp q = q * of_int K" by (simp add: u)
  have l2K: "of_int l < 2 * (of_int K :: rat)"
  proof -
    have "53 = ?e + int (Suc d)" using d by simp
    then have "(2::rat) powi 53 = 2 powi (?e + int (Suc d))" by (rule arg_cong)
    also have "\<dots> = 2 powi ?e * 2 powi int (Suc d)"
      by (rule power_int_add) simp
    also have "(2::rat) powi int (Suc d) = 2 * of_int K"
      by (simp only: power_int_of_nat power_Suc KR)
    finally have p: "(2::rat) powi 53 = 2 powi ?e * (2 * of_int K)" .
    have "(2::rat) powi ?e * of_int l \<le> q * of_int l"
      using exponent_bounds(1)[OF qpos] lpos by (simp only: mult_le_cancel_right_pos)
    also have "q * of_int l = of_nat n" by (rule ql)
    also have "(of_nat n :: rat) < 2 powi 53" using n53 power_int_of_nat[of "2::rat" 53] by simp
    finally have "(2::rat) powi ?e * of_int l < 2 powi ?e * (2 * of_int K)" unfolding p .
    then show ?thesis using zero_less_power_int[of "2::rat" ?e]
      by (simp only: mult_less_cancel_left_pos) 
  qed
  let ?a = "\<lfloor>q\<rfloor>" and ?b = "\<lceil>q\<rceil>"
  let ?m = "round_half_even (q * of_int K)"
  let ?y = "of_int ?m * ulp q"
  have yK: "?y = of_int ?m / of_int K" by (simp add: u)
  have "of_int (?a * K) \<le> q * of_int K"
    using KposR of_int_floor_le[of q] by (simp add: mult_le_cancel_right_pos)
  then have m_ge: "?a * K \<le> ?m" by (rule round_half_even_ge)
  have "q * of_int K \<le> of_int (?b * K)"
    using KposR le_of_int_ceiling[of q] by (simp add: mult_le_cancel_right_pos)
  then have m_le: "?m \<le> ?b * K" by (rule round_half_even_le)
  have y_le: "?y \<le> of_int ?b"
  proof -
    have "(of_int ?m :: rat) \<le> of_int (?b * K)" using m_le by (simp only: of_int_le_iff)
    then show ?thesis unfolding yK using KposR by (simp add: pos_divide_le_eq)
  qed
  have y_ge: "of_int ?a \<le> ?y"
  proof -
    have "(of_int (?a * K) :: rat) \<le> of_int ?m" using m_ge by (simp only: of_int_le_iff)
    then show ?thesis unfolding yK using KposR by (simp add: pos_le_divide_eq)
  qed
  have b_le: "(of_int ?b :: rat) \<le> of_nat n"
  proof -
    have "?b \<le> int n" using q_le_n by (simp add: ceiling_le_iff)
    then have "(of_int ?b :: rat) \<le> of_int (int n)" by (simp only: of_int_le_iff)
    then show ?thesis by simp
  qed
  have "?y < 2 ^ 53" using y_le b_le n53 by linarith
  then have "?y < overflow_threshold" using pow2_lt_overflow[of 53] by simp
  then have rd: "round_double q = Num ?y" by (simp add: round_double_pos[OF qpos] qu)
  have "\<lceil>?y\<rceil> = ?b"
  proof (cases "q = of_int ?a")
    case True
    then have "q * of_int K = of_int (?a * K)" by simp
    then have "?m = ?a * K" by (simp only: round_half_even_of_int)
    then have "?y = of_int ?a" unfolding yK using KposR by simp
    then show ?thesis using True by simp
  next
    case False
    have lt: "of_int ?a < q"
    proof (rule le_neq_trans)
      show "of_int ?a \<le> q" by (rule of_int_floor_le)
      show "of_int ?a \<noteq> q" using False by (rule not_sym)
    qed
    from lt have "of_int ?a < q" .
    then have "of_int ?a * of_int l < q * of_int l"
      using lpos by (simp only: mult_less_cancel_right_pos)
    then have "of_int ?a * of_int l < (of_nat n :: rat)" by (simp only: ql)
    then have "(of_int (?a * l) :: rat) < of_int (int n)" by simp
    then have "?a * l < int n" by (simp only: of_int_less_iff)
    then have "?a * l + 1 \<le> int n" by simp
    then have "(of_int (?a * l + 1) :: rat) \<le> of_int (int n)" by (simp only: of_int_le_iff)
    then have "of_int ?a * of_int l + 1 \<le> (of_nat n :: rat)" by simp
    then have "of_int ?a * of_int l + 1 \<le> q * of_int l" by (simp only: ql)
    then have "(of_int ?a + 1 / of_int l) * of_int l \<le> q * of_int l"
      using lpos by (simp add: distrib_right)
    then have gap: "of_int ?a + 1 / of_int l \<le> q"
      using lpos by (simp only: mult_le_cancel_right_pos)
    have half: "1 / 2 < of_int K / (of_int l :: rat)"
      using l2K lpos by (simp add: pos_less_divide_eq)
    have "(of_int ?a + 1 / of_int l) * of_int K = of_int ?a * of_int K + of_int K / (of_int l :: rat)"
      by (simp add: distrib_right)
    with half have "(of_int ?a :: rat) * of_int K + 1 / 2 < (of_int ?a + 1 / of_int l) * of_int K"
      by linarith
    also have "\<dots> \<le> q * of_int K"
      using gap KposR by (simp only: mult_le_cancel_right_pos)
    finally have "of_int (?a * K) + 1 / 2 < q * of_int K" by simp
    then have "?a * K + 1 \<le> ?m" by (rule round_half_even_gt)
    then have "(of_int (?a * K + 1) :: rat) \<le> of_int ?m" by (simp only: of_int_le_iff)
    then have "of_int ?a + 1 / of_int K \<le> ?y"
      unfolding yK using KposR by (simp add: pos_le_divide_eq algebra_simps)
    moreover have "0 < 1 / (of_int K :: rat)" using KposR by simp
    ultimately have y_gt: "of_int ?a < ?y" by linarith
    have ba: "?b = ?a + 1" using False by (simp only: ceiling_altdef if_False)
    have "of_int (?a + 1) - 1 < ?y \<and> ?y \<le> of_int (?a + 1)"
      using y_gt y_le ba by simp
    then have "\<lceil>?y\<rceil> = ?a + 1" by (simp only: ceiling_eq_iff)
    then show ?thesis using ba by simp
  qed
  with rd show ?thesis unfolding q_def by blast
qed

section \<open>Pagination\<close>

lemma ceiling_div_bounds:
  fixes l :: int
  assumes "0 < l"
  shows "(\<lceil>(of_nat n :: rat) / of_int l\<rceil> - 1) * l < int n"
    and "int n \<le> \<lceil>(of_nat n :: rat) / of_int l\<rceil> * l"
proof -
  let ?x = "(of_nat n :: rat) / of_int l"
  have l: "(0::rat) < of_int l" using assms by simp
  have "of_int \<lceil>?x\<rceil> - 1 < ?x" by linarith
  then have "(of_int \<lceil>?x\<rceil> - 1) * of_int l < (of_nat n :: rat)"
    using pos_less_divide_eq[OF l, of "of_int \<lceil>?x\<rceil> - 1" "of_nat n"] by blast
  then have "(of_int ((\<lceil>?x\<rceil> - 1) * l) :: rat) < of_int (int n)" by simp
  then show "(\<lceil>?x\<rceil> - 1) * l < int n" by (simp only: of_int_less_iff)
  have "(of_nat n :: rat) \<le> of_int \<lceil>?x\<rceil> * of_int l"
    using pos_divide_le_eq[OF l, of "of_nat n" "of_int \<lceil>?x\<rceil>"] le_of_int_ceiling[of ?x]
    by blast
  then have "(of_int (int n) :: rat) \<le> of_int (\<lceil>?x\<rceil> * l)" by simp
  then show "int n \<le> \<lceil>?x\<rceil> * l" by (simp only: of_int_le_iff)
qed

lemma parseInt_exact:
  assumes "0 \<le> n" and "n \<le> 2 ^ 53"
  shows "parseInt n = Num (of_int n)"
  unfolding parseInt_def using assms by (rule round_double_of_int_exact)

lemma skip_of_exact:
  assumes "1 \<le> page" and "page \<le> 2 ^ 53" and "1 \<le> limit" and "limit \<le> 100"
    and "(page - 1) * limit \<le> 2 ^ 53"
  shows "skip_of page limit = Num (of_int ((page - 1) * limit))"
proof -
  have p: "parseInt page = Num (of_int page)"
    using assms(1,2) by (intro parseInt_exact) simp_all
  have "limit \<le> 2 ^ 53" using assms(4) by simp
  then have l: "parseInt limit = Num (of_int limit)"
    using assms(3) by (intro parseInt_exact) simp_all
  have "0 \<le> page - 1" "page - 1 \<le> 2 ^ 53" using assms(1,2) by simp_all
  then have s: "round_double (of_int (page - 1)) = Num (of_int (page - 1))"
    by (rule round_double_of_int_exact)
  have "0 \<le> (page - 1) * limit" using assms(1,3) by simp
  then have m: "round_double (of_int ((page - 1) * limit)) = Num (of_int ((page - 1) * limit))"
    using assms(5) by (rule round_double_of_int_exact)
  have "fl_sub (parseInt page) (Num 1) = Num (of_int (page - 1))"
    using s by (simp add: p fl_sub_def)
  then show ?thesis
    using m by (simp add: skip_of_def l fl_mul_def)
qed

lemma pagination_totalPages:
  assumes "1 \<le> limit" and "limit \<le> 100" and "n < 2 ^ 53"
  shows "totalPages (pagination_of page limit n) = Num (of_int \<lceil>(of_nat n :: rat) / of_int limit\<rceil>)"
    and "totalItems (pagination_of page limit n) = Num (of_nat n)"
    and "itemsPerPage (pagination_of page limit n) = Num (of_int limit)"
proof -
  have "limit \<le> 2 ^ 53" using assms(2) by simp
  then have l: "parseInt limit = Num (of_int limit)"
    using assms(1) by (intro parseInt_exact) simp_all
  have "int n \<le> 2 ^ 53" using assms(3) by (simp add: of_nat_less_numeral_power_cancel_iff order_less_imp_le)
  then have "round_double (of_int (int n)) = Num (of_int (int n))"
    by (intro round_double_of_int_exact) simp_all
  then have t: "round_double (of_nat n) = Num (of_nat n)" by simp
  obtain y where y: "round_double (of_nat n / of_int limit) = Num y"
      "\<lceil>y\<rceil> = \<lceil>(of_nat n :: rat) / of_int limit\<rceil>"
    using round_double_div_ceiling[OF assms(3,1,2)] by blast
  have nz: "(of_int limit :: rat) \<noteq> 0" using assms(1) by simp
  have d: "fl_div (Num (of_nat n)) (Num (of_int limit)) = Num y"
    using y(1) nz by (simp add: fl_div_def)
  show "totalPages (pagination_of page limit n) = Num (of_int \<lceil>(of_nat n :: rat) / of_int limit\<rceil>)"
    by (simp add: pagination_of_def Let_def l t d y(2))
  show "totalItems (pagination_of page limit n) = Num (of_nat n)"
    by (simp add: pagination_of_def Let_def t)
  show "itemsPerPage (pagination_of page limit n) = Num (of_int limit)"
    by (simp add: pagination_of_def Let_def l)
qed

lemma pagination_flags:
  assumes "1 \<le> page" and "page \<le> 2 ^ 53"
  shows "hasNextPage (pagination_of page limit n) = js_lt (Num (of_int page)) (totalPages (pagination_of page limit n))"
    and "hasPrevPage (pagination_of page limit n) = (1 < page)"
    and "currentPage (pagination_of page limit n) = Num (of_int page)"
proof -
  have p: "parseInt page = Num (of_int page)"
    using assms by (intro parseInt_exact) simp_all
  show "hasNextPage (pagination_of page limit n) = js_lt (Num (of_int page)) (totalPages (pagination_of page limit n))"
    by (simp add: pagination_of_def Let_def p)
  show "hasPrevPage (pagination_of page limit n) = (1 < page)"
    by (simp add: pagination_of_def Let_def p)
  show "currentPage (pagination_of page limit n) = Num (of_int page)"
    by (simp add: pagination_of_def Let_def p)
qed

lemma round_double_large_page: "round_double 9007199254740993 = Num 9007199254740992"
  by code_simp

lemma round_double_large_skip:
  "round_double 180143985094819820 = Num 180143985094819808"
  by code_simp

lemma round_double_large_quotient:
  "round_double (45035996273704984 / 5) = Num 9007199254740996"
  by code_simp

lemma round_double_large_total:
  "round_double 180143985094819936 = Num 180143985094819936"
  by code_simp

lemma round_double_large_product:
  "round_double 27021597764222970 = Num 27021597764222968"
  by code_simp

lemma round_double_small:
  "round_double 1 = Num 1" "round_double 3 = Num 3" "round_double 20 = Num 20"
  "round_double 9007199254740991 = Num 9007199254740991"
  "round_double 9007199254740990 = Num 9007199254740990"
  using round_double_of_int_exact[of 1] round_double_of_int_exact[of 3]
    round_double_of_int_exact[of 20] round_double_of_int_exact[of 9007199254740991]
    round_double_of_int_exact[of 9007199254740990]
  by simp_all

text \<open>
  Claim C7. For a page from 1 to \<open>2^53\<close>, a limit from 1 to 100 and a count of items
  below \<open>2^53\<close>, the metadata holds the page, the limit and the count as they are, the
  number of pages is the ceiling of the count over the limit (the least number of pages
  of that size that hold all items), there is a next page exactly when the page is below
  the number of pages, and a previous page exactly when the page is above 1; the number
  of skipped items is \<open>(page - 1) * limit\<close> when that product is at most \<open>2^53\<close>. For
  95 items and a limit of 20 there are 5 pages; page 5 has no next page and has a
  previous one; page 1 has no previous page.
\<close>

theorem pagination_contract:
  "(1 \<le> page \<and> page \<le> 2 ^ 53 \<and> 1 \<le> limit \<and> limit \<le> 100 \<and> n < 2 ^ 53 \<longrightarrow>
      ((page - 1) * limit \<le> 2 ^ 53 \<longrightarrow>
         skip_of page limit = Num (of_int ((page - 1) * limit)))
      \<and> (\<exists>k. totalPages (pagination_of page limit n) = Num (of_int k)
             \<and> k = \<lceil>(of_nat n :: rat) / of_int limit\<rceil>
             \<and> (k - 1) * limit < int n \<and> int n \<le> k * limit
             \<and> hasNextPage (pagination_of page limit n) = (page < k))
      \<and> hasPrevPage (pagination_of page limit n) = (1 < page)
      \<and> currentPage (pagination_of page limit n) = Num (of_int page)
      \<and> totalItems (pagination_of page limit n) = Num (of_nat n)
      \<and> itemsPerPage (pagination_of page limit n) = Num (of_int limit))
   \<and> totalPages (pagination_of 5 20 95) = Num 5
   \<and> \<not> hasNextPage (pagination_of 5 20 95)
   \<and> hasPrevPage (pagination_of 5 20 95)
   \<and> \<not> hasPrevPage (pagination_of 1 20 95)"
proof (intro conjI impI)
  assume a: "1 \<le> page \<and> page \<le> 2 ^ 53 \<and> 1 \<le> limit \<and> limit \<le> 100 \<and> n < 2 ^ 53"
  then have p: "1 \<le> page" "page \<le> 2 ^ 53" and l: "1 \<le> limit" "limit \<le> 100"
    and n: "n < 2 ^ 53" by simp_all
  have l0: "0 < limit" using l(1) by simp
  note tp = pagination_totalPages(1)[OF l n, of page]
  have "hasNextPage (pagination_of page limit n)
          = (page < \<lceil>(of_nat n :: rat) / of_int limit\<rceil>)"
    by (simp add: pagination_flags(1)[OF p] tp)
  then show "\<exists>k. totalPages (pagination_of page limit n) = Num (of_int k)
             \<and> k = \<lceil>(of_nat n :: rat) / of_int limit\<rceil>
             \<and> (k - 1) * limit < int n \<and> int n \<le> k * limit
             \<and> hasNextPage (pagination_of page limit n) = (page < k)"
    using tp ceiling_div_bounds[OF l0, of n] by blast
  show "hasPrevPage (pagination_of page limit n) = (1 < page)"
    by (rule pagination_flags(2)[OF p])
  show "currentPage (pagination_of page limit n) = Num (of_int page)"
    by (rule pagination_flags(3)[OF p])
  show "totalItems (pagination_of page limit n) = Num (of_nat n)"
    by (rule pagination_totalPages(2)[OF l n])
  show "itemsPerPage (pagination_of page limit n) = Num (of_int limit)"
    by (rule pagination_totalPages(3)[OF l n])
  assume "(page - 1) * limit \<le> 2 ^ 53"
  with p l show "skip_of page limit = Num (of_int ((page - 1) * limit))"
    by (rule skip_of_exact)
next
  have c: "\<lceil>(95::rat) / 20\<rceil> = 5" by (simp add: ceiling_eq_iff)
  have t: "totalPages (pagination_of page 20 95) = Num 5" for page
    using pagination_totalPages(1)[of 20 95 page] c by simp
  show "totalPages (pagination_of 5 20 95) = Num 5" by (rule t)
  show "\<not> hasNextPage (pagination_of 5 20 95)"
    using pagination_flags(1)[of 5 20 95] t[of 5] by simp
  show "hasPrevPage (pagination_of 5 20 95)"
    using pagination_flags(2)[of 5 20 95] by simp
  show "\<not> hasPrevPage (pagination_of 1 20 95)"
    using pagination_flags(2)[of 1 20 95] by simp
qed

theorem pagination_contract_witness:
  "skip_of 3 20 = Num 40
   \<and> totalPages (pagination_of 3 20 41) = Num 3
   \<and> \<not> hasNextPage (pagination_of 3 20 41)
   \<and> hasPrevPage (pagination_of 3 20 41)
   \<and> currentPage (pagination_of 3 20 41) = Num 3"
proof -
  have c: "\<lceil>(41::rat) / 20\<rceil> = 3" by (simp add: ceiling_eq_iff)
  show ?thesis
    using pagination_contract [of 3 20 41] c by simp
qed

text \<open>
  Beyond \<open>2^53\<close> the integers are not all doubles. The page 9007199254740993 is read as
  9007199254740992, and 180143985094819808 items are skipped, not 180143985094819840;
  a count of 180143985094819936 with a limit of 20 gives 9007199254740996 pages, one
  fewer than the ceiling; and page 9007199254740991 with a limit of 3 skips
  27021597764222968 items, not 27021597764222970.
\<close>

theorem pagination_beyond_exact_integers:
  "skip_of 9007199254740993 20 = Num 180143985094819808
   \<and> (9007199254740993 - 1) * 20 = (180143985094819840 :: int)
   \<and> currentPage (pagination_of 9007199254740993 20 95) = Num 9007199254740992
   \<and> totalPages (pagination_of 1 20 180143985094819936) = Num 9007199254740996
   \<and> \<lceil>(180143985094819936 :: rat) / 20\<rceil> = 9007199254740997
   \<and> skip_of 9007199254740991 3 = Num 27021597764222968
   \<and> (9007199254740991 - 1) * 3 = (27021597764222970 :: int)"
proof (intro conjI)
  show "skip_of 9007199254740993 20 = Num 180143985094819808"
    by (simp add: skip_of_def parseInt_def round_double_large_page fl_sub_def fl_mul_def
        round_double_small round_double_large_skip)
  show "currentPage (pagination_of 9007199254740993 20 95) = Num 9007199254740992"
    by (simp add: pagination_of_def Let_def parseInt_def round_double_large_page)
  show "totalPages (pagination_of 1 20 180143985094819936) = Num 9007199254740996"
    by (simp add: pagination_of_def Let_def parseInt_def fl_div_def round_double_small
        round_double_large_total round_double_large_quotient)
  show "\<lceil>(180143985094819936 :: rat) / 20\<rceil> = 9007199254740997"
    by (simp add: ceiling_eq_iff)
  show "skip_of 9007199254740991 3 = Num 27021597764222968"
    by (simp add: skip_of_def parseInt_def fl_sub_def fl_mul_def round_double_small
        round_double_large_product)
qed simp_all

section \<open>The order of the routes\<close>

lemma deleteMany_connected:
  "connected d \<Longrightarrow>
   deleteMany d f = Inr (d\<lparr>docs := filter (\<lambda>s. \<not> f s) (docs d)\<rparr>, length (filter f (docs d)))"
  by (simp add: deleteMany_def)

lemma bulk_delete_connected:
  "connected d \<Longrightarrow>
   bulk_delete [] d uid ids =
     (d\<lparr>docs := filter (\<lambda>s. \<not> (doc_id s \<in> set ids \<and> user s = uid)) (docs d)\<rparr>,
      (200, Deleted (''Successfully deleted ''
                      @ digits (length (filter (\<lambda>s. doc_id s \<in> set ids \<and> user s = uid) (docs d)))
                      @ '' savings entries'')
                    (length (filter (\<lambda>s. doc_id s \<in> set ids \<and> user s = uid) (docs d)))))"
  by (simp add: bulk_delete_def deleteMany_def)

lemma dispatch_GET_one:
  "s \<noteq> [] \<Longrightarrow> dispatch GET [s] = Some (SavingsById, [s])"
  by (simp add: dispatch_def savings_routes_def)

lemma dispatch_DELETE_one:
  "s \<noteq> [] \<Longrightarrow> dispatch DELETE [s] = Some (DeleteSavings, [s])"
  by (simp add: dispatch_def savings_routes_def)

lemma path_shapes:
  obtains "path = []" | s where "path = [s]" | s t rest where "path = s # t # rest"
  by (cases path; cases "tl path") auto

lemma dispatch_handlers:
  assumes "dispatch m path = Some (h, params)"
  shows "h \<noteq> Goals" and "h \<noteq> BulkDelete" and "h \<noteq> Categories"
proof -
  have "h \<noteq> Goals \<and> h \<noteq> BulkDelete \<and> h \<noteq> Categories"
  proof (cases path rule: path_shapes)
    case 1
    then show ?thesis
      using assms by (cases m) (auto simp: dispatch_def savings_routes_def)
  next
    case (2 s)
    then show ?thesis
      using assms
      by (cases m; cases "s = []")
        (auto simp: dispatch_def savings_routes_def split: if_splits)
  next
    case (3 s t rest)
    then show ?thesis
      using assms
      by (cases m; cases rest)
        (auto simp: dispatch_def savings_routes_def split: if_splits option.splits)
  qed
  then show "h \<noteq> Goals" and "h \<noteq> BulkDelete" and "h \<noteq> Categories" by simp_all
qed

lemma hex_object_id_short: "length s \<noteq> 24 \<Longrightarrow> hex_object_id s = None"
  by (simp add: hex_object_id_def)

lemma hex_object_id_example: "hex_object_id ''00000000000000000000000a'' = Some 10"
  by code_simp

lemma lower_char_example: "map lower_char ''GoAls'' = ''goals''"
  by code_simp

lemma savings_router_by_id_example:
  "savings_router hex_object_id 0
     \<lparr>connected = True, docs =
       [\<lparr>doc_id = 10, user = 7, amount = 50, period_startDate = 0,
         goal = \<lparr>targetAmount = None, targetDate = None, isCompleted = False, progress = 0\<rparr>\<rparr>]\<rparr>
     7 GET [''00000000000000000000000a''] [] []
   = Answered
       \<lparr>connected = True, docs =
         [\<lparr>doc_id = 10, user = 7, amount = 50, period_startDate = 0,
           goal = \<lparr>targetAmount = None, targetDate = None, isCompleted = False, progress = 0\<rparr>\<rparr>]\<rparr>
       (200, Data \<lparr>doc_id = 10, user = 7, amount = 50, period_startDate = 0,
           goal = \<lparr>targetAmount = None, targetDate = None, isCompleted = False, progress = 0\<rparr>\<rparr>)"
  "savings_router hex_object_id 0
     \<lparr>connected = True, docs =
       [\<lparr>doc_id = 10, user = 7, amount = 50, period_startDate = 0,
         goal = \<lparr>targetAmount = None, targetDate = None, isCompleted = False, progress = 0\<rparr>\<rparr>]\<rparr>
     7 DELETE [''00000000000000000000000a''] [] []
   = Answered \<lparr>connected = True, docs = []\<rparr>
       (200, Done ''Savings entry deleted successfully'')"
  by (simp_all add: savings_router_def dispatch_DELETE_one dispatch_GET_one
      get_savings_by_param_def delete_savings_by_id_def hex_object_id_example
      get_savings_by_id_def findOne_def findOneAndDelete_def)

text \<open>
  Claim C8. A bulk-delete request is \<open>DELETE /api/savings/bulk\<close>. The route of the
  deletion by identifier is registered before the bulk route and its parameter matches
  the segment \<open>bulk\<close>, so that handler takes the request, and no request at all reaches
  the bulk handler. The string \<open>bulk\<close> is no identifier: the query throws, the handler
  answers 500 with the message of the single deletion, and the store is as it was,
  whatever identifiers the body lists. The bulk handler itself, on a reachable store
  with three documents listed, the second of another owner, would have removed the first
  and the third and reported the count 2.
\<close>

theorem bulk_delete_request_taken_by_id_route:
  "dispatch DELETE [''bulk''] = Some (DeleteSavings, [''bulk''])
   \<and> (\<forall>m path params. dispatch m path \<noteq> Some (BulkDelete, params))
   \<and> (cast ''bulk'' = None \<longrightarrow>
        savings_router cast now d uid DELETE [''bulk''] errors ids
          = Answered d (500, Msg ''Server error while deleting savings entry''))
   \<and> (connected d \<and> docs d = [a, b, c] \<and> user a = uid \<and> user b \<noteq> uid \<and> user c = uid \<longrightarrow>
        bulk_delete [] d uid [doc_id a, doc_id b, doc_id c] =
          (d\<lparr>docs := [b]\<rparr>, (200, Deleted ''Successfully deleted 2 savings entries'' 2)))"
proof (intro conjI impI allI)
  show "dispatch DELETE [''bulk''] = Some (DeleteSavings, [''bulk''])"
    by (simp add: dispatch_DELETE_one)
  show "dispatch m path \<noteq> Some (BulkDelete, params)" for m path params
    using dispatch_handlers(2)[of m path BulkDelete params] by blast
next
  assume "cast ''bulk'' = None"
  then show "savings_router cast now d uid DELETE [''bulk''] errors ids
          = Answered d (500, Msg ''Server error while deleting savings entry'')"
    by (simp add: savings_router_def dispatch_DELETE_one delete_savings_by_id_def)
next
  assume a: "connected d \<and> docs d = [a, b, c] \<and> user a = uid \<and> user b \<noteq> uid \<and> user c = uid"
  have "digits (Suc (Suc 0)) = ''2''" by (simp add: digits.simps digit_char_def)
  then show "bulk_delete [] d uid [doc_id a, doc_id b, doc_id c] =
          (d\<lparr>docs := [b]\<rparr>, (200, Deleted ''Successfully deleted 2 savings entries'' 2))"
    using a by (simp add: bulk_delete_connected)
qed

theorem bulk_delete_request_taken_by_id_route_witness:
  "savings_router hex_object_id 0
     \<lparr>connected = True, docs =
       [\<lparr>doc_id = 1, user = 7, amount = 50, period_startDate = 0,
         goal = \<lparr>targetAmount = None, targetDate = None, isCompleted = False, progress = 0\<rparr>\<rparr>,
        \<lparr>doc_id = 2, user = 8, amount = 60, period_startDate = 0,
         goal = \<lparr>targetAmount = None, targetDate = None, isCompleted = False, progress = 0\<rparr>\<rparr>,
        \<lparr>doc_id = 3, user = 7, amount = 70, period_startDate = 0,
         goal = \<lparr>targetAmount = None, targetDate = None, isCompleted = False, progress = 0\<rparr>\<rparr>]\<rparr>
     7 DELETE [''bulk''] [] [1, 2, 3]
   = Answered
     \<lparr>connected = True, docs =
       [\<lparr>doc_id = 1, user = 7, amount = 50, period_startDate = 0,
         goal = \<lparr>targetAmount = None, targetDate = None, isCompleted = False, progress = 0\<rparr>\<rparr>,
        \<lparr>doc_id = 2, user = 8, amount = 60, period_startDate = 0,
         goal = \<lparr>targetAmount = None, targetDate = None, isCompleted = False, progress = 0\<rparr>\<rparr>,
        \<lparr>doc_id = 3, user = 7, amount = 70, period_startDate = 0,
         goal = \<lparr>targetAmount = None, targetDate = None, isCompleted = False, progress = 0\<rparr>\<rparr>]\<rparr>
     (500, Msg ''Server error while deleting savings entry'')
   \<and> bulk_delete []
     \<lparr>connected = True, docs =
       [\<lparr>doc_id = 1, user = 7, amount = 50, period_startDate = 0,
         goal = \<lparr>targetAmount = None, targetDate = None, isCompleted = False, progress = 0\<rparr>\<rparr>,
        \<lparr>doc_id = 2, user = 8, amount = 60, period_startDate = 0,
         goal = \<lparr>targetAmount = None, targetDate = None, isCompleted = False, progress = 0\<rparr>\<rparr>,
        \<lparr>doc_id = 3, user = 7, amount = 70, period_startDate = 0,
         goal = \<lparr>targetAmount = None, targetDate = None, isCompleted = False, progress = 0\<rparr>\<rparr>]\<rparr>
     7 [1, 2, 3]
   = (\<lparr>connected = True, docs =
       [\<lparr>doc_id = 2, user = 8, amount = 60, period_startDate = 0,
         goal = \<lparr>targetAmount = None, targetDate = None, isCompleted = False, progress = 0\<rparr>\<rparr>]\<rparr>,
      (200, Deleted ''Successfully deleted 2 savings entries'' 2))"
proof -
  let ?a = "\<lparr>doc_id = 1, user = 7, amount = 50, period_startDate = 0,
         goal = \<lparr>targetAmount = None, targetDate = None, isCompleted = False, progress = 0\<rparr>\<rparr>"
  let ?b = "\<lparr>doc_id = 2, user = 8, amount = 60, period_startDate = 0,
         goal = \<lparr>targetAmount = None, targetDate = None, isCompleted = False, progress = 0\<rparr>\<rparr>"
  let ?c = "\<lparr>doc_id = 3, user = 7, amount = 70, period_startDate = 0,
         goal = \<lparr>targetAmount = None, targetDate = None, isCompleted = False, progress = 0\<rparr>\<rparr>"
  have "hex_object_id ''bulk'' = None" by (simp add: hex_object_id_def)
  then show ?thesis
    using bulk_delete_request_taken_by_id_route
      [where d = "\<lparr>connected = True, docs = [?a, ?b, ?c]\<rparr>" and uid = 7
         and a = ?a and b = ?b and c = ?c and cast = hex_object_id and now = 0
         and errors = "[]" and ids = "[1, 2, 3]"]
    by simp
qed

text \<open>
  Claim C6. The on-track flag is computed by the handler of \<open>GET /api/savings/goals\<close>.
  The route of the fetch by identifier is registered before the goals route and its
  parameter matches the segment \<open>goals\<close>, so no request reaches the goals handler: the
  request is answered 500 with the message of the single fetch, and no flag is sent. The
  expression itself answers true without a target date and otherwise compares the saved
  fraction with the elapsed fraction; for a window of length zero nothing guards the
  division, and the flag is true before the start of the period and false from the start
  on.
\<close>

theorem goals_request_taken_by_id_route:
  "dispatch GET [''goals''] = Some (SavingsById, [''goals''])
   \<and> (\<forall>m path params. dispatch m path \<noteq> Some (Goals, params))
   \<and> (cast ''goals'' = None \<longrightarrow>
        savings_router cast now d uid GET [''goals''] errors ids
          = Answered d (500, Msg ''Server error while fetching savings entry''))
   \<and> (targetDate (goal g) = None \<longrightarrow> isOnTrack now g)
   \<and> (targetDate (goal g) = Some td \<and> targetAmount (goal g) = Some t \<and> t \<noteq> 0
        \<and> td \<noteq> period_startDate g \<longrightarrow>
      isOnTrack now g =
        (of_int (now - period_startDate g) / of_int (td - period_startDate g) \<le> amount g / t))
   \<and> (targetDate (goal g) = Some td \<and> targetAmount (goal g) = Some t \<and> t \<noteq> 0
        \<and> td = period_startDate g \<longrightarrow>
      isOnTrack now g = (now < period_startDate g))"
proof (intro conjI impI allI)
  show "dispatch GET [''goals''] = Some (SavingsById, [''goals''])"
    by (simp add: dispatch_GET_one)
  show "dispatch m path \<noteq> Some (Goals, params)" for m path params
    using dispatch_handlers(1)[of m path Goals params] by blast
next
  assume "cast ''goals'' = None"
  then show "savings_router cast now d uid GET [''goals''] errors ids
          = Answered d (500, Msg ''Server error while fetching savings entry'')"
    by (simp add: savings_router_def dispatch_GET_one get_savings_by_param_def)
next
  assume "targetDate (goal g) = None"
  then show "isOnTrack now g" by (simp add: isOnTrack_def)
next
  assume "targetDate (goal g) = Some td \<and> targetAmount (goal g) = Some t \<and> t \<noteq> 0
        \<and> td \<noteq> period_startDate g"
  then show "isOnTrack now g =
        (of_int (now - period_startDate g) / of_int (td - period_startDate g) \<le> amount g / t)"
    by (simp add: isOnTrack_def js_div_def)
next
  assume "targetDate (goal g) = Some td \<and> targetAmount (goal g) = Some t \<and> t \<noteq> 0
        \<and> td = period_startDate g"
  then show "isOnTrack now g = (now < period_startDate g)"
    by (auto simp: isOnTrack_def js_div_def)
qed

theorem goals_request_taken_by_id_route_witness:
  "savings_router hex_object_id 500
     \<lparr>connected = True, docs =
       [\<lparr>doc_id = 1, user = 7, amount = 50, period_startDate = 100,
         goal = \<lparr>targetAmount = Some 200, targetDate = Some 100, isCompleted = False,
                 progress = 25\<rparr>\<rparr>]\<rparr>
     7 GET [''goals''] [] []
   = Answered
     \<lparr>connected = True, docs =
       [\<lparr>doc_id = 1, user = 7, amount = 50, period_startDate = 100,
         goal = \<lparr>targetAmount = Some 200, targetDate = Some 100, isCompleted = False,
                 progress = 25\<rparr>\<rparr>]\<rparr>
     (500, Msg ''Server error while fetching savings entry'')
   \<and> isOnTrack 500
     \<lparr>doc_id = 1, user = 7, amount = 50, period_startDate = 0,
      goal = \<lparr>targetAmount = Some 200, targetDate = None, isCompleted = False, progress = 25\<rparr>\<rparr>
   \<and> isOnTrack 250
     \<lparr>doc_id = 1, user = 7, amount = 50, period_startDate = 0,
      goal = \<lparr>targetAmount = Some 200, targetDate = Some 1000, isCompleted = False, progress = 25\<rparr>\<rparr>
   \<and> \<not> isOnTrack 500
     \<lparr>doc_id = 1, user = 7, amount = 50, period_startDate = 100,
      goal = \<lparr>targetAmount = Some 200, targetDate = Some 100, isCompleted = False, progress = 25\<rparr>\<rparr>
   \<and> \<not> isOnTrack 100
     \<lparr>doc_id = 1, user = 7, amount = 50, period_startDate = 100,
      goal = \<lparr>targetAmount = Some 200, targetDate = Some 100, isCompleted = False, progress = 25\<rparr>\<rparr>
   \<and> isOnTrack 99
     \<lparr>doc_id = 1, user = 7, amount = 50, period_startDate = 100,
      goal = \<lparr>targetAmount = Some 200, targetDate = Some 100, isCompleted = False, progress = 25\<rparr>\<rparr>"
proof -
  let ?z = "\<lparr>doc_id = 1, user = 7, amount = 50, period_startDate = 100,
      goal = \<lparr>targetAmount = Some 200, targetDate = Some 100, isCompleted = False, progress = 25\<rparr>\<rparr>"
  have c: "hex_object_id ''goals'' = None" by (simp add: hex_object_id_def)
  show ?thesis
    using goals_request_taken_by_id_route
     [where g = "\<lparr>doc_id = 1, user = 7, amount = 50, period_startDate = 0,
      goal = \<lparr>targetAmount = Some 200, targetDate = None, isCompleted = False, progress = 25\<rparr>\<rparr>"
      and td = 0 and t = 0 and now = 500 and cast = hex_object_id
      and d = "\<lparr>connected = True, docs = [?z]\<rparr>" and uid = 7 and errors = "[]" and ids = "[]"]
    goals_request_taken_by_id_route
     [where g = "\<lparr>doc_id = 1, user = 7, amount = 50, period_startDate = 0,
      goal = \<lparr>targetAmount = Some 200, targetDate = Some 1000, isCompleted = False, progress = 25\<rparr>\<rparr>"
      and td = 1000 and t = 200 and now = 250 and cast = hex_object_id]
    goals_request_taken_by_id_route
     [where g = ?z and td = 100 and t = 200 and now = 500 and cast = hex_object_id]
    goals_request_taken_by_id_route
     [where g = ?z and td = 100 and t = 200 and now = 100 and cast = hex_object_id]
    goals_request_taken_by_id_route
     [where g = ?z and td = 100 and t = 200 and now = 99 and cast = hex_object_id]
    c
    by simp
qed

section \<open>Percentage of the total\<close>

lemma digit_table:
  "k < 10 \<Longrightarrow> digit_value (''0123456789'' ! k) = Some k \<and> ''0123456789'' ! k \<noteq> CHR ''.''"
proof -
  assume "k < 10"
  then have "k = 0 \<or> k = 1 \<or> k = 2 \<or> k = 3 \<or> k = 4 \<or> k = 5 \<or> k = 6
    \<or> k = 7 \<or> k = 8 \<or> k = 9" by arith
  then show ?thesis
    by (elim disjE) (simp_all add: digit_value_def upt_rec)
qed

lemma digit_value_digit_char: "digit_value (digit_char n) = Some (n mod 10)"
  using digit_table[of "n mod 10"] by (simp add: digit_char_def)

lemma digit_char_not_point: "digit_char n \<noteq> CHR ''.''"
  using digit_table[of "n mod 10"] by (simp add: digit_char_def)

lemma digits_no_point: "CHR ''.'' \<notin> set (digits n)"
proof (induction n rule: digits.induct)
  case (1 n)
  then show ?case
    using digit_char_not_point[of n] by (subst digits.simps) auto
qed

lemma digits_not_empty: "digits n \<noteq> []"
  by (subst digits.simps) simp

lemma nat_of_digits_append:
  "nat_of_digits acc (xs @ ys) =
     (case nat_of_digits acc xs of None \<Rightarrow> None | Some a \<Rightarrow> nat_of_digits a ys)"
  by (induction xs arbitrary: acc) (auto split: option.splits)

lemma nat_of_digits_digits:
  "nat_of_digits acc (digits n) = Some (acc * 10 ^ length (digits n) + n)"
proof (induction n arbitrary: acc rule: digits.induct)
  case (1 n)
  show ?case
  proof (cases "n < 10")
    case True
    then have "digits n = [digit_char n]" by (subst digits.simps) simp
    then show ?thesis using True by (simp add: digit_value_digit_char)
  next
    case False
    then have d: "digits n = digits (n div 10) @ [digit_char n]"
      by (subst digits.simps) simp
    have "nat_of_digits acc (digits n) =
        Some (10 * (acc * 10 ^ length (digits (n div 10)) + n div 10) + n mod 10)"
      using "1.IH"[OF False, of acc]
      by (simp add: d nat_of_digits_append digit_value_digit_char)
    also have "10 * (acc * 10 ^ length (digits (n div 10)) + n div 10) + n mod 10 =
        acc * 10 ^ length (digits n) + n"
      by (simp add: d algebra_simps)
    finally show ?thesis .
  qed
qed

lemma nat_of_digits_zeros:
  "nat_of_digits acc (replicate k CHR ''0'') = Some (acc * 10 ^ k)"
proof (induction k arbitrary: acc)
  case 0
  then show ?case by simp
next
  case (Suc k)
  have "digit_value CHR ''0'' = Some 0"
    using digit_table[of 0] by simp
  then show ?case using Suc by simp
qed

text \<open>The padded digits of toFixed.\<close>

lemma padded_digits:
  fixes n :: nat
  defines "m \<equiv> (if length (digits n) \<le> 2
                  then replicate (3 - length (digits n)) CHR ''0'' @ digits n else digits n)"
  shows "3 \<le> length m" and "CHR ''.'' \<notin> set m" and "nat_of_digits 0 m = Some n"
proof -
  show "3 \<le> length m" by (simp add: m_def)
  show "CHR ''.'' \<notin> set m" using digits_no_point[of n] by (simp add: m_def)
  show "nat_of_digits 0 m = Some n"
    by (simp add: m_def nat_of_digits_append nat_of_digits_zeros nat_of_digits_digits)
qed

lemma decimal_value_point:
  assumes "3 \<le> length m" and "CHR ''.'' \<notin> set m" and "nat_of_digits 0 m = Some n"
  shows "decimal_value (take (length m - 2) m @ ''.'' @ drop (length m - 2) m)
         = Some (of_nat n / 100)"
proof -
  let ?a = "take (length m - 2) m" and ?b = "drop (length m - 2) m"
  have a: "\<And>c. c \<in> set ?a \<Longrightarrow> c \<noteq> CHR ''.''"
    using assms(2) by (metis in_set_takeD)
  have tw: "takeWhile (\<lambda>c. c \<noteq> CHR ''.'') (?a @ ''.'' @ ?b) = ?a"
    using a by (simp add: takeWhile_append2)
  have dw: "drop 1 (dropWhile (\<lambda>c. c \<noteq> CHR ''.'') (?a @ ''.'' @ ?b)) = ?b"
    using a by (simp add: dropWhile_append2)
  have ne: "?a \<noteq> []" "?b \<noteq> []" and lb: "length m - (length m - 2) = 2"
    using assms(1) by auto
  have ab: "?a @ ?b = m" by simp
  have "decimal_value (?a @ ''.'' @ ?b) = Some (of_nat n / 10 ^ length ?b)"
    unfolding decimal_value_def tw dw Let_def using ne by (simp only: ab assms(3)) simp
  then show ?thesis by (simp add: lb)
qed

lemma toFixed2_nonneg:
  assumes "0 \<le> x" and "x < 10 ^ 21"
  shows "\<exists>s. toFixed2 (Num x) = JStr s \<and> decimal_value s = Some (round2 x)"
proof -
  let ?n = "nat \<lfloor>\<bar>x\<bar> * 100 + 1 / 2\<rfloor>"
  let ?m = "(if length (digits ?n) \<le> 2
             then replicate (3 - length (digits ?n)) CHR ''0'' @ digits ?n else digits ?n)"
  let ?s = "take (length ?m - 2) ?m @ ''.'' @ drop (length ?m - 2) ?m"
  have small: "\<not> 10 ^ 21 \<le> \<bar>x\<bar>" using assms by simp
  have neg: "\<not> x < 0" using assms(1) by simp
  have "toFixed2 (Num x) = JStr ?s"
    unfolding toFixed2_def Let_def jsnum.case by (simp only: small neg if_False append_Nil)
  moreover have "decimal_value ?s = Some (of_nat ?n / 100)"
    by (rule decimal_value_point) (rule padded_digits)+
  moreover have "(of_nat ?n :: rat) = of_int \<lfloor>x * 100 + 1 / 2\<rfloor>"
  proof -
    have ax: "\<bar>x\<bar> = x" using assms(1) by simp
    have "0 \<le> x * 100 + 1 / 2" using assms(1) by simp
    then have "0 \<le> \<lfloor>x * 100 + 1 / 2\<rfloor>" by (simp only: zero_le_floor)
    then show ?thesis unfolding ax by (simp only: of_nat_nat)
  qed
  ultimately show ?thesis unfolding round2_def by (simp only:) blast
qed

lemma round2_nearest: "\<bar>round2 x - x\<bar> \<le> 1 / 200"
proof -
  let ?f = "\<lfloor>x * 100 + 1 / 2\<rfloor>"
  have "of_int ?f \<le> x * 100 + 1 / 2" "x * 100 + 1 / 2 < of_int ?f + 1"
    by linarith+
  then have "\<bar>of_int ?f - x * 100\<bar> \<le> 1 / 2" by linarith
  then have "\<bar>(of_int ?f - x * 100) / 100\<bar> \<le> (1 / 2) / 100"
    by (simp only: abs_divide abs_numeral divide_le_cancel) simp
  then show ?thesis by (simp add: round2_def diff_divide_distrib)
qed

lemma eps_facts:
  fixes eps :: rat
  assumes "eps = 1 / 2 ^ 53"
  shows "1 / 2 ^ 52 = 2 * eps" "1 / 2 ^ 46 = 128 * eps" "1 / 2 ^ 45 = 256 * eps" "0 < eps"
  unfolding assms by simp_all

lemma powi_numerals:
  "(2::rat) powi (0 - 52) = 1 / 2 ^ 52" "(2::rat) powi (7 - 52) = 1 / 2 ^ 45"
proof -
  have "(0::int) - 52 = - int 52" "(7::int) - 52 = - int 45" by simp_all
  then show "(2::rat) powi (0 - 52) = 1 / 2 ^ 52" "(2::rat) powi (7 - 52) = 1 / 2 ^ 45"
    by (simp_all only: power_int_minus_divide power_int_of_nat)
qed

lemma hundred_le_pow2: "(100::rat) \<le> 2 powi 7"
proof -
  have "(2::rat) powi int 7 = 2 ^ 7" by (rule power_int_of_nat)
  then show ?thesis by simp
qed

lemma percentage_double:
  assumes "0 < g" and "0 \<le> t" and "t \<le> g"
  shows "\<exists>p. fl_mul (fl_div (Num t) (Num g)) (Num 100) = Num p
             \<and> 0 \<le> p \<and> p \<le> 100 \<and> \<bar>p - t / g * 100\<bar> \<le> 1 / 2 ^ 45"
proof -
  define q where "q = t / g"
  define eps :: rat where "eps = 1 / 2 ^ 53"
  note e = eps_facts[OF eps_def]
  have q0: "0 \<le> q" and q1: "q \<le> 1" using assms by (simp_all add: q_def)
  have d: "fl_div (Num t) (Num g) = round_double q"
    using assms(1) by (simp add: fl_div_def q_def)
  have goal: "\<exists>p. fl_mul (fl_div (Num t) (Num g)) (Num 100) = Num p
             \<and> 0 \<le> p \<and> p \<le> 100 \<and> \<bar>p - q * 100\<bar> \<le> 256 * eps"
  proof (cases "q = 0")
    case True
    then have "fl_mul (fl_div (Num t) (Num g)) (Num 100) = Num 0"
      by (simp add: d fl_mul_def round_double_def)
    then show ?thesis using True e(4) by simp
  next
    case False
    with q0 have qpos: "0 < q" by simp
    have "q \<le> of_int 1" using q1 by simp
    then obtain y where y: "round_double q = Num y" "0 \<le> y" "y \<le> 1"
      using round_double_le_of_int[OF qpos, of 1] by auto
    have "ulp q \<le> 2 powi (0 - 52)"
      by (rule ulp_le[OF qpos]) (use q1 in simp_all)
    then have uq: "ulp q \<le> 2 * eps" by (simp only: powi_numerals e)
    have "\<bar>y - q\<bar> \<le> ulp q / 2" using qpos y(1) by (rule round_double_error)
    then have eq: "\<bar>y - q\<bar> \<le> eps" using uq by linarith
    have m: "fl_mul (fl_div (Num t) (Num g)) (Num 100) = round_double (y * 100)"
      by (simp add: d y(1) fl_mul_def)
    show ?thesis
    proof (cases "y = 0")
      case True
      then have p: "fl_mul (fl_div (Num t) (Num g)) (Num 100) = Num 0"
        by (simp add: m round_double_def)
      have "\<bar>0 - q * 100\<bar> \<le> 256 * eps" using eq True q0 by linarith
      then show ?thesis using p by simp
    next
      case False
      with y(2) have ypos: "0 < y * 100" by simp
      have y100: "y * 100 \<le> of_int 100" using y(3) by simp
      obtain p where p: "round_double (y * 100) = Num p" "0 \<le> p" "p \<le> 100"
        using round_double_le_of_int[OF ypos y100] by auto
      have "y * 100 \<le> 2 powi 7" using y100 hundred_le_pow2 by simp
      then have "ulp (y * 100) \<le> 2 powi (7 - 52)"
        by (rule ulp_le[OF ypos]) simp
      then have up: "ulp (y * 100) \<le> 256 * eps" by (simp only: powi_numerals e)
      have "\<bar>p - y * 100\<bar> \<le> ulp (y * 100) / 2" using ypos p(1) by (rule round_double_error)
      then have "\<bar>p - q * 100\<bar> \<le> 256 * eps" using up eq by linarith
      then show ?thesis using p m by simp
    qed
  qed
  then show ?thesis unfolding q_def by (simp only: e)
qed

lemma percentage_positive:
  assumes "0 < g" and "0 \<le> t" and "t \<le> g"
  shows "\<exists>p s. fl_mul (fl_div (Num t) (Num g)) (Num 100) = Num p
               \<and> 0 \<le> p \<and> p \<le> 100 \<and> \<bar>p - t / g * 100\<bar> \<le> 1 / 2 ^ 45
               \<and> percentage_of_total t g = JStr s
               \<and> decimal_value s = Some (round2 p)"
proof -
  obtain p where p: "fl_mul (fl_div (Num t) (Num g)) (Num 100) = Num p"
      "0 \<le> p" "p \<le> 100" "\<bar>p - t / g * 100\<bar> \<le> 1 / 2 ^ 45"
    using percentage_double[OF assms] by blast
  have "p < 10 ^ 21" using p(3) by simp
  then obtain s where "toFixed2 (Num p) = JStr s" "decimal_value s = Some (round2 p)"
    using toFixed2_nonneg[OF p(2)] by blast
  then have "percentage_of_total t g = JStr s \<and> decimal_value s = Some (round2 p)"
    using assms(1) by (simp add: percentage_of_total_def p(1))
  with p show ?thesis by blast
qed

lemma percentage_50_200: "percentage_of_total 50 200 = JStr ''25.00''"
  by code_simp

lemma percentage_23_160: "percentage_of_total 23 160 = JStr ''14.37''"
  by code_simp

lemma percentage_1_3: "percentage_of_total 1 3 = JStr ''33.33''"
  by code_simp

text \<open>
  Claim C2. The percentage of a total of 0 is the number 0 for every item, with no
  division. For a positive total and an item from 0 to the total, the quotient times 100
  is a double \<open>p\<close> from 0 to 100, within \<open>2^(-45)\<close> of the exact percentage, and the
  percentage is the printed decimal of \<open>round2 p\<close>, where \<open>round2\<close> is within half a
  hundredth of its argument; 50 of 200 prints as \<open>25.00\<close>.
\<close>

theorem percentage_of_total_round2:
  "percentage_of_total x 0 = JNum 0
   \<and> (0 < g \<and> 0 \<le> t \<and> t \<le> g \<longrightarrow>
        (\<exists>p s. fl_mul (fl_div (Num t) (Num g)) (Num 100) = Num p
               \<and> 0 \<le> p \<and> p \<le> 100 \<and> \<bar>p - t / g * 100\<bar> \<le> 1 / 2 ^ 45
               \<and> percentage_of_total t g = JStr s
               \<and> decimal_value s = Some (round2 p)))
   \<and> \<bar>round2 y - y\<bar> \<le> 1 / 200
   \<and> percentage_of_total 50 200 = JStr ''25.00''"
proof (intro conjI impI)
  show "percentage_of_total x 0 = JNum 0" by (simp add: percentage_of_total_def)
  show "\<bar>round2 y - y\<bar> \<le> 1 / 200" by (rule round2_nearest)
  show "percentage_of_total 50 200 = JStr ''25.00''" by (rule percentage_50_200)
next
  assume "0 < g \<and> 0 \<le> t \<and> t \<le> g"
  then show "\<exists>p s. fl_mul (fl_div (Num t) (Num g)) (Num 100) = Num p
               \<and> 0 \<le> p \<and> p \<le> 100 \<and> \<bar>p - t / g * 100\<bar> \<le> 1 / 2 ^ 45
               \<and> percentage_of_total t g = JStr s
               \<and> decimal_value s = Some (round2 p)"
    using percentage_positive by blast
qed

theorem percentage_of_total_round2_witness:
  "percentage_of_total 1 3 = JStr ''33.33''
   \<and> (\<exists>p. fl_mul (fl_div (Num 1) (Num 3)) (Num 100) = Num p
          \<and> \<bar>p - 1 / 3 * 100\<bar> \<le> 1 / 2 ^ 45
          \<and> decimal_value ''33.33'' = Some (round2 p))
   \<and> percentage_of_total 7 0 = JNum 0"
proof -
  have e: "percentage_of_total 1 3 = JStr ''33.33''" by (rule percentage_1_3)
  have "(0::rat) < 3 \<and> (0::rat) \<le> 1 \<and> (1::rat) \<le> 3" by simp
  then obtain p s where "fl_mul (fl_div (Num 1) (Num 3)) (Num 100) = Num p"
      and "\<bar>p - 1 / 3 * 100\<bar> \<le> 1 / 2 ^ 45"
      and "percentage_of_total 1 3 = JStr s"
      and "decimal_value s = Some (round2 p)"
    using percentage_of_total_round2 [of 7 3 1] by blast
  with e show ?thesis
    using percentage_of_total_round2 [of 7] by auto
qed

text \<open>
  The exact percentage of 23 in 160 is 14.375, and \<open>round2\<close> of it is 14.38. The
  quotient is rounded to a double below 0.14375, its product with 100 to a double below
  14.375, and the route prints \<open>14.37\<close>.
\<close>

theorem percentage_of_total_23_of_160:
  "percentage_of_total 23 160 = JStr ''14.37''
   \<and> decimal_value ''14.37'' = Some (1437 / 100)
   \<and> round2 (23 / 160 * 100) = 1438 / 100"
proof (intro conjI)
  show "percentage_of_total 23 160 = JStr ''14.37''" by (rule percentage_23_160)
  show "decimal_value ''14.37'' = Some (1437 / 100)" by code_simp
  show "round2 (23 / 160 * 100) = 1438 / 100" by (simp add: round2_def)
qed

end
